theory Spec2Isabelle
  imports Complex_Main
begin

section \<open>The image transformer of express-sharp (src/transformer.service.ts)\<close>

text \<open>
  The class \<open>Transformer\<close> has three methods: \<open>getCropDimensions\<close>, \<open>buildCacheKey\<close> and
  \<open>transform\<close>. Its collaborators (the result cache, the two image fetchers, the options
  hasher, the sharp image engine and the smartcrop engine) are imported from other modules;
  they are parameters of the model, collected in the record \<open>env\<close>.

  A JavaScript number is an IEEE 754 double. A finite one is modelled as the rational
  it denotes (\<open>Num\<close>), the two infinities as the one value \<open>Infinite\<close> and the two zeros
  as \<open>Num 0\<close>: the model does not keep the sign of an infinity or of a zero. A division
  and a product round their exact result to the nearest double, a tie going to the even
  significand (\<open>to_double\<close>). The numbers a caller passes are finite doubles; whole
  numbers below \<open>2 ^ 53\<close> in magnitude are (\<open>to_double_of_int\<close>).
\<close>

subsection \<open>Data\<close>

type_synonym bytes = "nat list"

type_synonym image_format = string

datatype jsnum = Num rat | Infinite | NaN

datatype error = Error string

text \<open>
  \<open>ResizeDto\<close> is imported from \<open>./resize.dto\<close>; the fields are those \<open>transform\<close> reads.
  An optional field that is \<open>undefined\<close> is \<open>None\<close>.
\<close>

record ResizeDto =
  width :: rat
  height :: "rat option"
  format :: "image_format option"
  quality :: "rat option"
  progressive :: "bool option"
  blur :: bool
  blurSigma :: rat
  crop :: bool
  smartcrop :: bool
  gravity :: "string option"
  overlay :: bool
  overlayImage :: "string option"

text \<open>\<open>Result\<close> (from \<open>./interfaces\<close>): \<open>{format, image}\<close>, the image \<open>null\<close> on a fetch miss.\<close>

record Result =
  result_format :: "image_format option"
  image :: "bytes option"

text \<open>Of an \<open>ImageAdapter\<close> the transformer reads \<open>constructor.name\<close> only.\<close>

record ImageAdapter =
  constructor_name :: string

text \<open>The region \<open>topCrop\<close> that \<open>smartcrop.crop\<close> answers: \<open>{x, y, width, height}\<close>.\<close>

record TopCrop =
  crop_x :: rat
  crop_y :: rat
  crop_width :: rat
  crop_height :: rat

text \<open>
  The options object of a \<open>resize\<close> call. The source passes four different ones:
  none (smartcrop), \<open>{position}\<close> (crop), \<open>{fit: 'inside', withoutEnlargement: true}\<close>
  (default) and \<open>{fit: 'contain', background: {r, g, b, alpha}}\<close> (overlay).
\<close>

record ResizeOptions =
  fit :: "string option"
  position :: "string option option"
  withoutEnlargement :: "bool option"
  background :: "(rat \<times> rat \<times> rat \<times> rat) option"

text \<open>
  The method calls the source makes on a sharp instance. \<open>Extract\<close> lists
  \<open>width, height, left, top\<close> in the order of the source's object literal;
  a \<open>Composite\<close> item is \<open>(input, top, left)\<close>; \<open>ToFormat\<close> is
  \<open>toFormat(format, {progressive, quality})\<close>.
\<close>

datatype op =
    Rotate
  | Blur rat
  | Extract rat rat rat rat
  | Resize jsnum "jsnum option" "ResizeOptions option"
  | Flatten string
  | Composite "(bytes \<times> rat \<times> rat) list"
  | ToFormat "image_format option" "bool option" "rat option"

text \<open>A sharp instance: the input it was constructed from and the calls made on it so far.\<close>

record Sharp =
  input :: "bytes option"
  pipeline :: "op list"

text \<open>Every call that leaves the transformer, in the order it is made.\<close>

datatype event =
    CacheGet string
  | CacheSet string Result
  | FetchOriginal string ImageAdapter
  | FetchOverlay "string option" ImageAdapter
  | EngineNew "bytes option"
  | EngineCall op
  | EngineMetadata Sharp
  | EngineToBuffer Sharp
  | SmartcropCrop bytes jsnum jsnum

text \<open>
  The collaborators. \<open>hash\<close> is \<open>ObjectHash.hash\<close>; \<open>fetchOriginal\<close> and \<open>fetchOverlay\<close> are the
  \<open>fetch\<close> methods of the two \<open>CachedImage\<close> instances (a rejected promise is \<open>Inl\<close>, no
  bytes is \<open>Inr None\<close>); \<open>construct\<close> is \<open>sharp(input)\<close> and \<open>accepts\<close> the parameter check
  of a method call on an instance (\<open>Some e\<close> when it throws); \<open>metadata\<close> answers the
  \<open>format\<close> field of \<open>metadata()\<close>; \<open>toBuffer\<close> runs the pipeline; \<open>smartcrop_crop\<close> is
  \<open>smartcrop.crop(bytes, {width, height})\<close> and answers \<open>topCrop\<close>. \<open>cropMaxSize\<close> is the
  instance field of that name. What a collaborator answers is a function of its
  arguments: the fetchers' own caches and retries are not modelled, and the hasher
  does not throw.
\<close>

record env =
  hash :: "ResizeDto \<Rightarrow> string"
  fetchOriginal :: "string \<Rightarrow> ImageAdapter \<Rightarrow> error + bytes option"
  fetchOverlay :: "string option \<Rightarrow> ImageAdapter \<Rightarrow> error + bytes option"
  construct :: "bytes option \<Rightarrow> error option"
  accepts :: "op \<Rightarrow> error option"
  metadata :: "Sharp \<Rightarrow> error + image_format option"
  toBuffer :: "Sharp \<Rightarrow> error + bytes"
  smartcrop_crop :: "bytes \<Rightarrow> jsnum \<Rightarrow> jsnum \<Rightarrow> error + TopCrop"
  cropMaxSize :: rat

text \<open>
  What a call of \<open>transform\<close> can change: the caller's options object (JavaScript passes it
  by reference, so an assignment to one of its fields is seen by the caller), the result
  cache (a Keyv store, here a map from keys to results whose \<open>get\<close> and \<open>set\<close> do not
  fail; expiry is not modelled) and the record of the calls made.
\<close>

record state =
  options :: ResizeDto
  cache :: "string \<rightharpoonup> Result"
  trace :: "event list"

subsection \<open>getCropDimensions\<close>

definition DEFAULT_CROP_MAX_SIZE :: rat where
  "DEFAULT_CROP_MAX_SIZE = 2000"

text \<open>\<open>height || width\<close>: the right operand when the left one is \<open>undefined\<close> or \<open>0\<close>.\<close>

definition or_else :: "rat option \<Rightarrow> rat \<Rightarrow> rat" where
  "or_else h w = (case h of None \<Rightarrow> w | Some v \<Rightarrow> if v = 0 then w else v)"

text \<open>
  Rounding to a double. \<open>bit_length n\<close> is the number of binary digits of a positive
  \<open>n\<close>, and \<open>binary_exponent x\<close> the \<open>e\<close> with \<open>2 ^ e \<le> \<bar>x\<bar> < 2 ^ (e + 1)\<close>. A double
  has a significand of 53 bits, so the doubles next to \<open>x\<close> are the multiples of
  \<open>2 ^ (e - 52)\<close>; below the smallest normal exponent, \<open>- 1022\<close>, the spacing stays
  \<open>2 ^ (- 1074)\<close>. A result of magnitude \<open>2 ^ 1024\<close> or more is an infinity.
\<close>

function bit_length :: "int \<Rightarrow> int" where
  "bit_length n = (if n \<le> 0 then 0 else 1 + bit_length (n div 2))"
  by pat_completeness auto
termination
  by (relation "measure nat") auto

declare bit_length.simps [simp del]

definition pow2 :: "int \<Rightarrow> rat" where
  "pow2 k = (if 0 \<le> k then 2 ^ nat k else 1 / 2 ^ nat (- k))"

definition binary_exponent :: "rat \<Rightarrow> int" where
  "binary_exponent x =
     (case quotient_of \<bar>x\<bar> of (p, q) \<Rightarrow>
        let d = bit_length p - bit_length q
        in if pow2 d \<le> \<bar>x\<bar> then d else d - 1)"

definition round_half_even :: "rat \<Rightarrow> int" where
  "round_half_even x =
     (let f = \<lfloor>x\<rfloor>; d = x - of_int f
      in if d < 1 / 2 then f else if 1 / 2 < d then f + 1 else if even f then f else f + 1)"

definition to_double :: "rat \<Rightarrow> jsnum" where
  "to_double x =
     (if x = 0 then Num 0
      else
        let e = binary_exponent x;
            q = pow2 (max e (- 1022) - 52);
            m = round_half_even (x / q)
        in if e < 1023 then Num (of_int m * q)
           else if 1024 \<le> e \<or> 2 ^ 53 \<le> \<bar>m\<bar> then Infinite
           else Num (of_int m * q))"

text \<open>
  The operators \<open>/\<close> and \<open>*\<close>. A finite number divided by zero is an infinity, and
  \<open>0 / 0\<close> is NaN; a finite number divided by an infinity is a zero; \<open>0\<close> times an
  infinity is NaN; NaN gives NaN.
\<close>

fun js_div :: "jsnum \<Rightarrow> jsnum \<Rightarrow> jsnum" where
  "js_div (Num p) (Num q) =
     (if q = 0 then (if p = 0 then NaN else Infinite) else to_double (p / q))"
| "js_div (Num p) Infinite = Num 0"
| "js_div Infinite (Num q) = Infinite"
| "js_div Infinite Infinite = NaN"
| "js_div NaN b = NaN"
| "js_div a NaN = NaN"

fun js_mul :: "jsnum \<Rightarrow> jsnum \<Rightarrow> jsnum" where
  "js_mul (Num p) (Num q) = to_double (p * q)"
| "js_mul (Num p) Infinite = (if p = 0 then NaN else Infinite)"
| "js_mul Infinite (Num q) = (if q = 0 then NaN else Infinite)"
| "js_mul Infinite Infinite = Infinite"
| "js_mul NaN b = NaN"
| "js_mul a NaN = NaN"

text \<open>
  \<open>Math.round\<close>: the nearest integer, a tie going up. The integer nearest to a double
  is a double, so nothing is rounded twice.
\<close>

fun js_round :: "jsnum \<Rightarrow> jsnum" where
  "js_round (Num p) = Num (of_int (round p))"
| "js_round Infinite = Infinite"
| "js_round NaN = NaN"

definition getCropDimensions :: "rat \<Rightarrow> rat \<Rightarrow> rat option \<Rightarrow> jsnum \<times> jsnum" where
  "getCropDimensions maxSize w h0 =
     (let h = or_else h0 w in
      if w \<le> maxSize \<and> h \<le> maxSize then (Num w, Num h)
      else
        let aspectRatio = js_div (Num w) (Num h) in
        if w > h then (Num maxSize, js_round (js_div (Num maxSize) aspectRatio))
        else (js_round (js_mul (Num maxSize) aspectRatio), js_round (Num maxSize)))"

subsection \<open>buildCacheKey\<close>

definition buildCacheKey :: "(ResizeDto \<Rightarrow> string) \<Rightarrow> string \<Rightarrow> ResizeDto \<Rightarrow> string \<Rightarrow> string" where
  "buildCacheKey hasher ident opts adapterName =
     ''transform:'' @ ident @ '':'' @ adapterName @ '':'' @ hasher opts"

subsection \<open>Calls with effects\<close>

text \<open>
  An \<open>async\<close> step either throws (its promise rejects), \<open>Inl\<close>, or gives a value, \<open>Inr\<close>;
  both ways it may have changed the state. \<open>bindM\<close> is sequencing (\<open>await\<close>): an error
  ends the call. Logging is not modelled.
\<close>

type_synonym 'a M = "state \<Rightarrow> (error + 'a) \<times> state"

definition returnM :: "'a \<Rightarrow> 'a M" where
  "returnM v = (\<lambda>s. (Inr v, s))"

definition throwM :: "error \<Rightarrow> 'a M" where
  "throwM e = (\<lambda>s. (Inl e, s))"

definition bindM :: "'a M \<Rightarrow> ('a \<Rightarrow> 'b M) \<Rightarrow> 'b M" where
  "bindM m f = (\<lambda>s. case m s of (Inl e, s') \<Rightarrow> (Inl e, s') | (Inr v, s') \<Rightarrow> f v s')"

definition emit :: "event \<Rightarrow> unit M" where
  "emit ev = (\<lambda>s. (Inr (), s\<lparr>trace := trace s @ [ev]\<rparr>))"

definition settle :: "error + 'a \<Rightarrow> 'a M" where
  "settle r = (case r of Inl e \<Rightarrow> throwM e | Inr v \<Rightarrow> returnM v)"

definition get_options :: "ResizeDto M" where
  "get_options = (\<lambda>s. (Inr (options s), s))"

definition set_format :: "image_format option \<Rightarrow> unit M" where
  "set_format f = (\<lambda>s. (Inr (), s\<lparr>options := (options s)\<lparr>format := f\<rparr>\<rparr>))"

definition cache_get :: "string \<Rightarrow> Result option M" where
  "cache_get k = bindM (emit (CacheGet k)) (\<lambda>_. (\<lambda>s. (Inr (cache s k), s)))"

definition cache_set :: "string \<Rightarrow> Result \<Rightarrow> unit M" where
  "cache_set k v =
     bindM (emit (CacheSet k v)) (\<lambda>_. (\<lambda>s. (Inr (), s\<lparr>cache := (cache s)(k \<mapsto> v)\<rparr>)))"

definition fetch_original :: "env \<Rightarrow> string \<Rightarrow> ImageAdapter \<Rightarrow> bytes option M" where
  "fetch_original e ident adapter =
     bindM (emit (FetchOriginal ident adapter)) (\<lambda>_. settle (fetchOriginal e ident adapter))"

definition fetch_overlay :: "env \<Rightarrow> string option \<Rightarrow> ImageAdapter \<Rightarrow> bytes option M" where
  "fetch_overlay e ident adapter =
     bindM (emit (FetchOverlay ident adapter)) (\<lambda>_. settle (fetchOverlay e ident adapter))"

text \<open>\<open>sharp(input)\<close>: a new instance with no calls made on it.\<close>

definition sharp_new :: "env \<Rightarrow> bytes option \<Rightarrow> Sharp M" where
  "sharp_new e inp =
     bindM (emit (EngineNew inp)) (\<lambda>_.
       case construct e inp of
         Some err \<Rightarrow> throwM err
       | None \<Rightarrow> returnM \<lparr>input = inp, pipeline = []\<rparr>)"

text \<open>
  A method call on an instance, such as \<open>transformer.blur(sigma)\<close>. sharp changes the
  instance in place and returns it, which is why the source can drop the returned value.
\<close>

definition sharp_call :: "env \<Rightarrow> op \<Rightarrow> Sharp \<Rightarrow> Sharp M" where
  "sharp_call e opn t =
     bindM (emit (EngineCall opn)) (\<lambda>_.
       case accepts e opn of
         Some err \<Rightarrow> throwM err
       | None \<Rightarrow> returnM (t\<lparr>pipeline := pipeline t @ [opn]\<rparr>))"

definition sharp_metadata :: "env \<Rightarrow> Sharp \<Rightarrow> image_format option M" where
  "sharp_metadata e t = bindM (emit (EngineMetadata t)) (\<lambda>_. settle (metadata e t))"

definition sharp_toBuffer :: "env \<Rightarrow> Sharp \<Rightarrow> bytes M" where
  "sharp_toBuffer e t = bindM (emit (EngineToBuffer t)) (\<lambda>_. settle (toBuffer e t))"

definition smartcrop_call :: "env \<Rightarrow> bytes \<Rightarrow> jsnum \<Rightarrow> jsnum \<Rightarrow> TopCrop M" where
  "smartcrop_call e img w h =
     bindM (emit (SmartcropCrop img w h)) (\<lambda>_. settle (smartcrop_crop e img w h))"

subsection \<open>transform\<close>

text \<open>\<open>!options.format\<close>: the format is \<open>undefined\<close> or the empty string.\<close>

definition format_missing :: "image_format option \<Rightarrow> bool" where
  "format_missing f = (case f of None \<Rightarrow> True | Some v \<Rightarrow> v = [])"

text \<open>Lines 79 to 82: the blur.\<close>

definition blur_stage :: "env \<Rightarrow> ResizeDto \<Rightarrow> Sharp \<Rightarrow> Sharp M" where
  "blur_stage e opts t =
     (if blur opts then sharp_call e (Blur (blurSigma opts)) t else returnM t)"

text \<open>Lines 84 to 86: the format is read from the image and written into the options.\<close>

definition resolve_format :: "env \<Rightarrow> ResizeDto \<Rightarrow> Sharp \<Rightarrow> unit M" where
  "resolve_format e opts t =
     (if format_missing (format opts)
      then bindM (sharp_metadata e t) (\<lambda>f. set_format f)
      else returnM ())"

text \<open>Lines 88 to 113: smartcrop, else crop, else the plain resize.\<close>

definition geometry_stage :: "env \<Rightarrow> ResizeDto \<Rightarrow> bytes \<Rightarrow> Sharp \<Rightarrow> Sharp M" where
  "geometry_stage e opts originalImage t =
     (if smartcrop opts then
        (case getCropDimensions (cropMaxSize e) (width opts) (height opts) of
           (cropWidth, cropHeight) \<Rightarrow>
             bindM (smartcrop_call e originalImage cropWidth cropHeight) (\<lambda>c.
             bindM (sharp_call e (Extract (crop_width c) (crop_height c) (crop_x c) (crop_y c)) t) (\<lambda>t1.
             sharp_call e (Resize cropWidth (Some cropWidth) None) t1)))
      else if crop opts then
        (case getCropDimensions (cropMaxSize e) (width opts) (height opts) of
           (cropWidth, cropHeight) \<Rightarrow>
             sharp_call e
               (Resize cropWidth (Some cropHeight)
                  (Some \<lparr>fit = None, position = Some (gravity opts),
                         withoutEnlargement = None, background = None\<rparr>)) t)
      else
        sharp_call e
          (Resize (Num (width opts)) (map_option Num (height opts))
             (Some \<lparr>fit = Some ''inside'', position = None,
                    withoutEnlargement = Some True, background = None\<rparr>)) t)"

text \<open>
  Lines 116 to 125: the overlay. What the fetch answered goes to \<open>sharp(...)\<close> as it is,
  \<open>null\<close> included. The \<open>if (overlayImage)\<close> of line 122 has no braces: it guards the log
  call of line 123 only, and \<open>composite\<close> of line 124 runs whenever this block does.
\<close>

definition overlay_stage :: "env \<Rightarrow> ResizeDto \<Rightarrow> ImageAdapter \<Rightarrow> Sharp \<Rightarrow> Sharp M" where
  "overlay_stage e opts adapter t =
     (if overlay opts then
        bindM (fetch_overlay e (overlayImage opts) adapter) (\<lambda>fetched.
        bindM (sharp_new e fetched) (\<lambda>o0.
        bindM (sharp_call e
                 (Resize (Num 200) (Some (Num 200))
                    (Some \<lparr>fit = Some ''contain'', position = None,
                           withoutEnlargement = None, background = Some (255, 255, 255, 0)\<rparr>)) o0) (\<lambda>o1.
        bindM (sharp_call e (Flatten ''#ff6600'') o1) (\<lambda>o2.
        bindM (sharp_toBuffer e o2) (\<lambda>overlayImage.
        sharp_call e (Composite [(overlayImage, 35, 35)]) t)))))
      else returnM t)"

text \<open>Lines 127 to 140: encode, store under the key of line 52, return.\<close>

definition encode_and_store :: "env \<Rightarrow> string \<Rightarrow> ResizeDto \<Rightarrow> Sharp \<Rightarrow> Result M" where
  "encode_and_store e cacheKey opts t =
     bindM (sharp_call e (ToFormat (format opts) (progressive opts) (quality opts)) t) (\<lambda>t1.
     bindM (sharp_toBuffer e t1) (\<lambda>img.
     bindM (cache_set cacheKey \<lparr>result_format = format opts, image = Some img\<rparr>) (\<lambda>_.
     returnM \<lparr>result_format = format opts, image = Some img\<rparr>)))"

text \<open>Lines 77 to 140: what \<open>transform\<close> does once it holds the source bytes.\<close>

definition process :: "env \<Rightarrow> string \<Rightarrow> ImageAdapter \<Rightarrow> bytes \<Rightarrow> Result M" where
  "process e cacheKey adapter originalImage =
     bindM get_options (\<lambda>opts.
     bindM (sharp_new e (Some originalImage)) (\<lambda>t0.
     bindM (sharp_call e Rotate t0) (\<lambda>t1.
     bindM (blur_stage e opts t1) (\<lambda>t2.
     bindM (resolve_format e opts t2) (\<lambda>_.
     bindM get_options (\<lambda>opts'.
     bindM (geometry_stage e opts' originalImage t2) (\<lambda>t3.
     bindM (overlay_stage e opts' adapter t3) (\<lambda>t4.
     encode_and_store e cacheKey opts' t4))))))))"

text \<open>
  \<open>transform(id, options, imageAdapter)\<close>; the options object is \<open>options s\<close>. A cached
  result is an object, so \<open>if (cachedImage)\<close> holds exactly when the key is present;
  the fetched image is a Buffer or nothing, so \<open>!originalImage\<close> holds exactly when
  there is none.
\<close>

definition transform :: "env \<Rightarrow> string \<Rightarrow> ImageAdapter \<Rightarrow> Result M" where
  "transform e ident adapter =
     bindM get_options (\<lambda>opts.
     let cacheKey = buildCacheKey (hash e) ident opts (constructor_name adapter) in
     bindM (cache_get cacheKey) (\<lambda>cachedImage.
       case cachedImage of
         Some r \<Rightarrow> returnM r
       | None \<Rightarrow>
           bindM (fetch_original e ident adapter) (\<lambda>originalImage.
             case originalImage of
               None \<Rightarrow> returnM \<lparr>result_format = format opts, image = None\<rparr>
             | Some img \<Rightarrow> process e cacheKey adapter img)))"

subsection \<open>Collaborators that are not in the source file\<close>

text \<open>
  Modelled from the spec: \<open>ObjectHash.hash\<close> (imported from \<open>./object-hash.service\<close>),
  which section 4.1 describes as a function of the field values alone that is sensitive
  to every field. The model is the canonical serialization itself, the fields in one
  fixed order; the digest taken of it is left out.
\<close>

fun show_nat :: "nat \<Rightarrow> string" where
  "show_nat n =
     (if n < 10 then [''0123456789'' ! n]
      else show_nat (n div 10) @ [''0123456789'' ! (n mod 10)])"

definition show_int :: "int \<Rightarrow> string" where
  "show_int i = (if i < 0 then ''-'' @ show_nat (nat (- i)) else show_nat (nat i))"

definition show_rat :: "rat \<Rightarrow> string" where
  "show_rat r = (case quotient_of r of (p, q) \<Rightarrow> show_int p @ ''/'' @ show_int q)"

definition show_bool :: "bool \<Rightarrow> string" where
  "show_bool b = (if b then ''true'' else ''false'')"

definition show_option :: "('a \<Rightarrow> string) \<Rightarrow> 'a option \<Rightarrow> string" where
  "show_option f v = (case v of None \<Rightarrow> ''undefined'' | Some a \<Rightarrow> ''('' @ f a @ '')'')"

definition canonical_hash :: "ResizeDto \<Rightarrow> string" where
  "canonical_hash opts =
     concat
       [''blur='', show_bool (blur opts),
        '';blurSigma='', show_rat (blurSigma opts),
        '';crop='', show_bool (crop opts),
        '';format='', show_option id (format opts),
        '';gravity='', show_option id (gravity opts),
        '';height='', show_option show_rat (height opts),
        '';overlay='', show_bool (overlay opts),
        '';overlayImage='', show_option id (overlayImage opts),
        '';progressive='', show_option show_bool (progressive opts),
        '';quality='', show_option show_rat (quality opts),
        '';smartcrop='', show_bool (smartcrop opts),
        '';width='', show_rat (width opts)]"

text \<open>
  Modelled from the spec: the size of the image that the engine's \<open>resize\<close> produces under
  \<open>{fit: 'inside', withoutEnlargement: true}\<close>. The engine is the sharp library, whose code
  is not part of the repository; section 4.3 (step 7) says of this mode that it
  preserves the aspect ratio, never upscales beyond the source and never exceeds the
  requested bounds. The model scales both sides of a source of size \<open>(sw, sh)\<close> by the
  largest factor, at most 1, that keeps them within the requested width and, when given,
  height. Rounding to whole pixels is not modelled.
\<close>

definition inside_scale :: "rat \<times> rat \<Rightarrow> rat \<Rightarrow> rat option \<Rightarrow> rat" where
  "inside_scale src w h =
     (case src of (sw, sh) \<Rightarrow>
        (case h of
           None \<Rightarrow> min 1 (w / sw)
         | Some hh \<Rightarrow> min 1 (min (w / sw) (hh / sh))))"

definition resize_inside :: "rat \<times> rat \<Rightarrow> rat \<Rightarrow> rat option \<Rightarrow> rat \<times> rat" where
  "resize_inside src w h = (fst src * inside_scale src w h, snd src * inside_scale src w h)"

text \<open>
  The size a call gives an image of size \<open>src\<close>, for the one call whose size the spec
  describes: a resize to finite bounds with fit inside and without enlargement.
\<close>

fun output_size :: "op \<Rightarrow> rat \<times> rat \<Rightarrow> (rat \<times> rat) option" where
  "output_size (Resize (Num w) h (Some ro)) src =
     (if fit ro = Some ''inside'' \<and> withoutEnlargement ro = Some True
      then (case h of
              None \<Rightarrow> Some (resize_inside src w None)
            | Some (Num hh) \<Rightarrow> Some (resize_inside src w (Some hh))
            | Some _ \<Rightarrow> None)
      else None)"
| "output_size _ src = None"

subsection \<open>Stub collaborators\<close>

text \<open>
  A fetcher that knows one image and one overlay, an engine that accepts every call and
  refuses to render an instance that has no input, and the default maximum crop size.
\<close>

definition stub_toBuffer :: "Sharp \<Rightarrow> error + bytes" where
  "stub_toBuffer t =
     (case input t of
        None \<Rightarrow> Inl (Error ''Input file is missing'')
      | Some b \<Rightarrow> Inr (b @ [length (pipeline t)]))"

definition stub_env :: env where
  "stub_env =
     \<lparr>hash = canonical_hash,
      fetchOriginal = (\<lambda>ident adapter. Inr (if ident = ''cat.jpg'' then Some [1, 2, 3] else None)),
      fetchOverlay = (\<lambda>ident adapter. Inr (if ident = Some ''logo.png'' then Some [7] else None)),
      construct = (\<lambda>inp. None),
      accepts = (\<lambda>opn. None),
      metadata = (\<lambda>t. Inr (Some ''jpeg'')),
      toBuffer = stub_toBuffer,
      smartcrop_crop =
        (\<lambda>img w h. Inr \<lparr>crop_x = 10, crop_y = 20, crop_width = 300, crop_height = 400\<rparr>),
      cropMaxSize = DEFAULT_CROP_MAX_SIZE\<rparr>"

definition stub_adapter :: ImageAdapter where
  "stub_adapter = \<lparr>constructor_name = ''FsAdapter''\<rparr>"

definition stub_options :: ResizeDto where
  "stub_options =
     \<lparr>width = 500, height = None, format = None, quality = Some 80, progressive = None,
      blur = False, blurSigma = 1, crop = False, smartcrop = False, gravity = None,
      overlay = False, overlayImage = None\<rparr>"

definition stub_state :: state where
  "stub_state = \<lparr>options = stub_options, cache = Map.empty, trace = []\<rparr>"

subsection \<open>Properties of runs\<close>

text \<open>The calls that decide the geometry of the output.\<close>

fun geometric :: "op \<Rightarrow> bool" where
  "geometric (Extract w h l t) = True"
| "geometric (Resize w h ro) = True"
| "geometric _ = False"

fun is_cache_write :: "event \<Rightarrow> bool" where
  "is_cache_write (CacheSet k v) = True"
| "is_cache_write _ = False"


text \<open>The calls that go to the engines and to the overlay fetcher.\<close>

fun is_processing :: "event \<Rightarrow> bool" where
  "is_processing (FetchOverlay i a) = True"
| "is_processing (EngineNew inp) = True"
| "is_processing (EngineCall opn) = True"
| "is_processing (EngineMetadata t) = True"
| "is_processing (EngineToBuffer t) = True"
| "is_processing (SmartcropCrop img w h) = True"
| "is_processing _ = False"

text \<open>
  A step is \<open>quiet\<close> when it leaves the cache as it is and makes processing calls only;
  it \<open>keeps_options\<close> when it leaves the options object as it is. A step
  \<open>stores_last\<close> when it is quiet if it fails and, if it returns a result, has stored
  that result under the key as the last thing it did, right after the engine rendered it.
\<close>

definition quiet :: "'a M \<Rightarrow> bool" where
  "quiet m =
     (\<forall>s. cache (snd (m s)) = cache s
        \<and> (\<exists>evs. trace (snd (m s)) = trace s @ evs \<and> list_all is_processing evs))"

definition keeps_options :: "'a M \<Rightarrow> bool" where
  "keeps_options m = (\<forall>s. options (snd (m s)) = options s)"

definition stores_last :: "env \<Rightarrow> string \<Rightarrow> Result M \<Rightarrow> bool" where
  "stores_last e k m =
     (\<forall>s. case m s of
        (Inl err, s') \<Rightarrow>
          cache s' = cache s
          \<and> (\<exists>evs. trace s' = trace s @ evs \<and> list_all is_processing evs)
      | (Inr v, s') \<Rightarrow>
          cache s' = (cache s)(k \<mapsto> v)
          \<and> (\<exists>evs t b. trace s' = trace s @ evs @ [EngineToBuffer t, CacheSet k v]
                \<and> list_all is_processing evs
                \<and> toBuffer e t = Inr b \<and> image v = Some b))"

section \<open>Rounding to a double\<close>

lemma pow2_powi: "pow2 k = 2 powi k"
  by (simp add: pow2_def power_int_def inverse_eq_divide power_one_over)

lemma pow2_pos: "0 < pow2 k"
  by (simp add: pow2_powi)

lemma pow2_add: "pow2 (j + k) = pow2 j * pow2 k"
  by (simp add: pow2_powi power_int_add)

lemma pow2_diff: "pow2 (j - k) = pow2 j / pow2 k"
  by (simp add: pow2_powi power_int_diff)

lemma pow2_mono: "j \<le> k \<Longrightarrow> pow2 j \<le> pow2 k"
  by (simp add: pow2_powi power_int_increasing)

lemma bit_length_int:
  "0 < n \<Longrightarrow> 1 \<le> bit_length n \<and> 2 ^ nat (bit_length n - 1) \<le> n \<and> n < 2 ^ nat (bit_length n)"
proof (induction n rule: bit_length.induct)
  case (1 n)
  have nn: "\<not> n \<le> 0" using "1.prems" by simp
  have bl: "bit_length n = 1 + bit_length (n div 2)" using nn bit_length.simps [of n] by simp
  show ?case
  proof (cases "n = 1")
    case True
    have "bit_length (0::int) = 0" using bit_length.simps [of 0] by simp
    then have "bit_length 1 = 1" using bit_length.simps [of 1] by simp
    with True show ?thesis by simp
  next
    case False
    with "1.prems" have big: "0 < n div 2" by simp
    from "1.IH" [OF nn big] have
      b1: "1 \<le> bit_length (n div 2)"
      and lo: "2 ^ nat (bit_length (n div 2) - 1) \<le> n div 2"
      and hi: "n div 2 < 2 ^ nat (bit_length (n div 2))" by simp_all
    define m where "m = n div 2"
    define k where "k = nat (bit_length (n div 2) - 1)"
    have kk: "nat (bit_length (n div 2)) = Suc k" using b1 by (simp add: k_def)
    have lo2: "2 ^ k \<le> m" using lo by (simp add: k_def m_def)
    have hi2: "m < 2 ^ Suc k" using hi kk by (simp add: m_def)
    have n1: "2 * m \<le> n" by (simp add: m_def)
    have n2: "n < 2 * m + 2" by (simp add: m_def)
    have e1: "nat (bit_length n - 1) = Suc k" using bl kk by simp
    have e2: "nat (bit_length n) = Suc (Suc k)" using bl kk b1 by simp
    have "(2::int) ^ Suc k \<le> n" using lo2 n1 by simp
    moreover have "n < (2::int) ^ Suc (Suc k)" using hi2 n2 by simp
    moreover have "1 \<le> bit_length n" using bl b1 by simp
    ultimately show ?thesis unfolding e1 e2 by simp
  qed
qed

lemma bit_length_bounds:
  assumes "0 < n"
  shows "pow2 (bit_length n - 1) \<le> of_int n" and "of_int n < pow2 (bit_length n)"
proof -
  from bit_length_int [OF assms] have b: "1 \<le> bit_length n"
    and lo: "2 ^ nat (bit_length n - 1) \<le> n" and hi: "n < 2 ^ nat (bit_length n)" by simp_all
  have "(of_int (2 ^ nat (bit_length n - 1)) :: rat) \<le> of_int n" using lo by (simp only: of_int_le_iff)
  then show "pow2 (bit_length n - 1) \<le> of_int n" using b by (simp add: pow2_def)
  have "(of_int n :: rat) < of_int (2 ^ nat (bit_length n))" using hi by (simp only: of_int_less_iff)
  then show "of_int n < pow2 (bit_length n)" using b by (simp add: pow2_def)
qed


lemma binary_exponent_bounds:
  assumes "x \<noteq> 0"
  shows "pow2 (binary_exponent x) \<le> \<bar>x\<bar>" and "\<bar>x\<bar> < pow2 (binary_exponent x + 1)"
proof -
  obtain p q where pq: "quotient_of \<bar>x\<bar> = (p, q)" by (cases "quotient_of \<bar>x\<bar>")
  then have q: "0 < q" by (rule quotient_of_denom_pos)
  have ax: "\<bar>x\<bar> = of_int p / of_int q" using pq by (rule quotient_of_div)
  have "0 < \<bar>x\<bar>" using assms by simp
  with ax q have p: "0 < p" by (simp add: zero_less_divide_iff)
  let ?d = "bit_length p - bit_length q"
  from bit_length_bounds [OF p] have plo: "pow2 (bit_length p - 1) \<le> of_int p"
    and phi: "of_int p < pow2 (bit_length p)" by simp_all
  from bit_length_bounds [OF q] have qlo: "pow2 (bit_length q - 1) \<le> of_int q"
    and qhi: "of_int q < pow2 (bit_length q)" by simp_all
  have qpos: "(0::rat) < of_int q" using q by simp
  have lower: "pow2 (?d - 1) \<le> \<bar>x\<bar>"
  proof -
    have "pow2 (?d - 1) * of_int q \<le> pow2 (?d - 1) * pow2 (bit_length q)"
      using qhi pow2_pos [of "?d - 1"] by (simp add: mult_left_mono less_imp_le)
    also have "\<dots> = pow2 (bit_length p - 1)" by (simp add: pow2_add [symmetric])
    also have "\<dots> \<le> of_int p" by (rule plo)
    finally show ?thesis using qpos by (simp add: ax pos_le_divide_eq)
  qed
  have upper: "\<bar>x\<bar> < pow2 (?d + 1)"
  proof -
    have "of_int p < pow2 (bit_length p)" by (rule phi)
    also have "\<dots> = pow2 (?d + 1) * pow2 (bit_length q - 1)" by (simp add: pow2_add [symmetric])
    also have "\<dots> \<le> pow2 (?d + 1) * of_int q"
      using qlo pow2_pos [of "?d + 1"] by (simp add: mult_left_mono less_imp_le)
    finally show ?thesis using qpos by (simp add: ax pos_divide_less_eq)
  qed
  have be: "binary_exponent x = (if pow2 ?d \<le> \<bar>x\<bar> then ?d else ?d - 1)"
    by (simp add: binary_exponent_def pq Let_def)
  show "pow2 (binary_exponent x) \<le> \<bar>x\<bar>" using lower by (simp add: be)
  show "\<bar>x\<bar> < pow2 (binary_exponent x + 1)" using upper by (auto simp: be)
qed

lemma round_half_even_near: "\<bar>of_int (round_half_even y) - y\<bar> \<le> 1 / 2"
proof -
  define f where "f = \<lfloor>y\<rfloor>"
  have a: "of_int f \<le> y" and b: "y < of_int f + 1" unfolding f_def by linarith+
  have r: "round_half_even y = f \<and> y - of_int f \<le> 1 / 2
         \<or> round_half_even y = f + 1 \<and> 1 / 2 \<le> y - of_int f"
    unfolding round_half_even_def Let_def f_def [symmetric] by auto
  then show ?thesis
  proof
    assume "round_half_even y = f \<and> y - of_int f \<le> 1 / 2"
    with a show ?thesis by simp
  next
    assume "round_half_even y = f + 1 \<and> 1 / 2 \<le> y - of_int f"
    with b show ?thesis by simp
  qed
qed

lemma round_half_even_of_int: "round_half_even (of_int k) = k"
  by (simp add: round_half_even_def Let_def)

text \<open>The result of rounding is within half the spacing of doubles at that magnitude.\<close>

lemma to_double_near:
  assumes "to_double x = Num r"
  shows "\<bar>r - x\<bar> \<le> pow2 (max (binary_exponent x) (- 1022) - 53)"
proof (cases "x = 0")
  case True
  with assms show ?thesis using pow2_pos [of "max (binary_exponent x) (- 1022) - 53"]
    by (simp add: to_double_def less_imp_le)
next
  case False
  let ?q = "pow2 (max (binary_exponent x) (- 1022) - 52)"
  let ?m = "round_half_even (x / ?q)"
  have qpos: "0 < ?q" by (rule pow2_pos)
  from assms False have r: "r = of_int ?m * ?q"
    by (auto simp: to_double_def Let_def split: if_splits)
  have "\<bar>of_int ?m - x / ?q\<bar> \<le> 1 / 2" by (rule round_half_even_near)
  then have "\<bar>of_int ?m - x / ?q\<bar> * ?q \<le> 1 / 2 * ?q"
    using qpos by (simp add: mult_right_mono less_imp_le)
  moreover have "\<bar>of_int ?m - x / ?q\<bar> * ?q = \<bar>of_int ?m * ?q - x\<bar>"
  proof -
    have "\<bar>of_int ?m - x / ?q\<bar> * ?q = \<bar>(of_int ?m - x / ?q) * ?q\<bar>"
      using qpos by (simp add: abs_mult)
    also have "(of_int ?m - x / ?q) * ?q = of_int ?m * ?q - x"
      using qpos by (simp add: left_diff_distrib)
    finally show ?thesis .
  qed
  moreover have "1 / 2 * ?q = pow2 (max (binary_exponent x) (- 1022) - 53)"
  proof -
    have "pow2 (max (binary_exponent x) (- 1022) - 53) = pow2 ((max (binary_exponent x) (- 1022) - 52) + (- 1))"
      by simp
    also have "\<dots> = ?q * pow2 (- 1)" by (rule pow2_add)
    also have "pow2 (- 1) = 1 / 2" by (simp add: pow2_def)
    finally show ?thesis by simp
  qed
  ultimately show ?thesis using r by simp
qed

text \<open>In the normal range that is a relative error of at most \<open>2 ^ (- 53)\<close>.\<close>

lemma to_double_relative_error:
  assumes "to_double x = Num r" and "pow2 (- 1022) \<le> \<bar>x\<bar>"
  shows "\<bar>r - x\<bar> \<le> \<bar>x\<bar> / 2 ^ 53"
proof -
  have x0: "x \<noteq> 0" using assms(2) pow2_pos [of "- 1022"] by auto
  have e: "- 1022 \<le> binary_exponent x"
  proof (rule ccontr)
    assume "\<not> - 1022 \<le> binary_exponent x"
    then have "binary_exponent x + 1 \<le> - 1022" by simp
    then have "pow2 (binary_exponent x + 1) \<le> pow2 (- 1022)" by (rule pow2_mono)
    with binary_exponent_bounds(2) [OF x0] assms(2) show False by simp
  qed
  then have m: "max (binary_exponent x) (- 1022) = binary_exponent x" by simp
  from to_double_near [OF assms(1)] have "\<bar>r - x\<bar> \<le> pow2 (binary_exponent x - 53)"
    by (simp add: m)
  also have "pow2 (binary_exponent x - 53) = pow2 (binary_exponent x) / pow2 53"
    by (rule pow2_diff)
  also have "\<dots> \<le> \<bar>x\<bar> / pow2 53"
    using binary_exponent_bounds(1) [OF x0] pow2_pos [of 53] by (simp add: divide_right_mono less_imp_le)
  also have "pow2 53 = 2 ^ 53" by (simp add: pow2_def)
  finally show ?thesis .
qed


text \<open>Whole numbers below \<open>2 ^ 53\<close> in magnitude are doubles: rounding leaves them as they are.\<close>

lemma to_double_of_int:
  assumes "\<bar>k\<bar> < 2 ^ 53"
  shows "to_double (of_int k) = Num (of_int k)"
proof (cases "k = 0")
  case True
  then show ?thesis by (simp add: to_double_def)
next
  case False
  let ?x = "of_int k :: rat"
  let ?e = "binary_exponent ?x"
  have x0: "?x \<noteq> 0" using False by simp
  have ax: "\<bar>?x\<bar> = of_int \<bar>k\<bar>" by simp
  have "(of_int \<bar>k\<bar> :: rat) < of_int (2 ^ 53)" using assms by (simp only: of_int_less_iff)
  then have small: "\<bar>?x\<bar> < pow2 53" by (simp add: pow2_def)
  have "1 \<le> \<bar>k\<bar>" using False by simp
  then have "(of_int 1 :: rat) \<le> of_int \<bar>k\<bar>" by (simp only: of_int_le_iff)
  then have big: "pow2 0 \<le> \<bar>?x\<bar>" by (simp add: pow2_def)
  have e_hi: "?e < 53"
  proof (rule ccontr)
    assume "\<not> ?e < 53"
    then have "pow2 53 \<le> pow2 ?e" by (simp add: pow2_mono)
    with binary_exponent_bounds(1) [OF x0] small show False by simp
  qed
  have e_lo: "0 \<le> ?e"
  proof (rule ccontr)
    assume "\<not> 0 \<le> ?e"
    then have "pow2 (?e + 1) \<le> pow2 0" by (simp add: pow2_mono)
    with binary_exponent_bounds(2) [OF x0] big show False by simp
  qed
  have mx: "max ?e (- 1022) = ?e" using e_lo by simp
  define j where "j = nat (52 - ?e)"
  have q: "pow2 (?e - 52) = 1 / 2 ^ j"
    using e_hi by (simp add: pow2_def j_def)
  have quo: "?x / pow2 (?e - 52) = of_int (k * 2 ^ j)" by (simp add: q)
  have m: "round_half_even (?x / pow2 (?e - 52)) = k * 2 ^ j"
    unfolding quo by (rule round_half_even_of_int)
  have again: "of_int (k * 2 ^ j) * pow2 (?e - 52) = ?x" by (simp add: q)
  show ?thesis
    using x0 e_hi by (simp add: to_double_def Let_def mx m again del: of_int_mult of_int_power)
qed

section \<open>How the steps behave\<close>

subsection \<open>The calls, one by one\<close>

lemmas prim_defs = returnM_def throwM_def bindM_def emit_def settle_def get_options_def set_format_def
  cache_get_def cache_set_def fetch_original_def fetch_overlay_def sharp_new_def sharp_call_def
  sharp_metadata_def sharp_toBuffer_def smartcrop_call_def

lemma bindM_Inr:
  "(bindM m f s = (Inr v, s'')) = (\<exists>x s'. m s = (Inr x, s') \<and> f x s' = (Inr v, s''))"
  by (auto simp: bindM_def split: prod.splits sum.splits)

lemma bindM_Inl:
  "(bindM m f s = (Inl e, s'')) =
   (m s = (Inl e, s'') \<or> (\<exists>x s'. m s = (Inr x, s') \<and> f x s' = (Inl e, s'')))"
  by (auto simp: bindM_def split: prod.splits sum.splits)

lemma cache_get_eq: "cache_get k s = (Inr (cache s k), s\<lparr>trace := trace s @ [CacheGet k]\<rparr>)"
  by (simp add: prim_defs)

lemma cache_set_eq:
  "cache_set k v s = (Inr (), s\<lparr>trace := trace s @ [CacheSet k v], cache := (cache s)(k \<mapsto> v)\<rparr>)"
  by (simp add: prim_defs)

lemma fetch_original_eq:
  "fetch_original e i a s =
   (fetchOriginal e i a, s\<lparr>trace := trace s @ [FetchOriginal i a]\<rparr>)"
  by (simp add: prim_defs split: sum.splits)

lemma fetch_overlay_eq:
  "fetch_overlay e i a s =
   (fetchOverlay e i a, s\<lparr>trace := trace s @ [FetchOverlay i a]\<rparr>)"
  by (simp add: prim_defs split: sum.splits)

lemma sharp_new_eq:
  "sharp_new e i s =
   ((case construct e i of Some err \<Rightarrow> Inl err | None \<Rightarrow> Inr \<lparr>input = i, pipeline = []\<rparr>),
    s\<lparr>trace := trace s @ [EngineNew i]\<rparr>)"
  by (simp add: prim_defs split: option.splits)

lemma sharp_call_eq:
  "sharp_call e opn t s =
   ((case accepts e opn of Some err \<Rightarrow> Inl err | None \<Rightarrow> Inr (t\<lparr>pipeline := pipeline t @ [opn]\<rparr>)),
    s\<lparr>trace := trace s @ [EngineCall opn]\<rparr>)"
  by (simp add: prim_defs split: option.splits)

lemma sharp_metadata_eq:
  "sharp_metadata e t s = (metadata e t, s\<lparr>trace := trace s @ [EngineMetadata t]\<rparr>)"
  by (simp add: prim_defs split: sum.splits)

lemma sharp_toBuffer_eq:
  "sharp_toBuffer e t s = (toBuffer e t, s\<lparr>trace := trace s @ [EngineToBuffer t]\<rparr>)"
  by (simp add: prim_defs split: sum.splits)

lemma smartcrop_call_eq:
  "smartcrop_call e img w h s =
   (smartcrop_crop e img w h, s\<lparr>trace := trace s @ [SmartcropCrop img w h]\<rparr>)"
  by (simp add: prim_defs split: sum.splits)

lemmas call_eqs = cache_get_eq cache_set_eq fetch_original_eq fetch_overlay_eq sharp_new_eq
  sharp_call_eq sharp_metadata_eq sharp_toBuffer_eq smartcrop_call_eq

lemma transform_hit:
  assumes "cache s (buildCacheKey (hash e) i (options s) (constructor_name a)) = Some r"
  shows "transform e i a s =
    (Inr r, s\<lparr>trace := trace s @ [CacheGet (buildCacheKey (hash e) i (options s) (constructor_name a))]\<rparr>)"
  using assms by (simp add: transform_def prim_defs Let_def)

lemma transform_fetch_none:
  assumes "cache s (buildCacheKey (hash e) i (options s) (constructor_name a)) = None"
    and "fetchOriginal e i a = Inr None"
  shows "transform e i a s =
    (Inr \<lparr>result_format = format (options s), image = None\<rparr>,
     s\<lparr>trace := trace s @ [CacheGet (buildCacheKey (hash e) i (options s) (constructor_name a)),
                            FetchOriginal i a]\<rparr>)"
  using assms by (simp add: transform_def prim_defs Let_def)

lemma transform_fetch_rejected:
  assumes "cache s (buildCacheKey (hash e) i (options s) (constructor_name a)) = None"
    and "fetchOriginal e i a = Inl err"
  shows "transform e i a s =
    (Inl err,
     s\<lparr>trace := trace s @ [CacheGet (buildCacheKey (hash e) i (options s) (constructor_name a)),
                            FetchOriginal i a]\<rparr>)"
  using assms by (simp add: transform_def prim_defs Let_def)

lemma transform_fetched:
  assumes "cache s (buildCacheKey (hash e) i (options s) (constructor_name a)) = None"
    and "fetchOriginal e i a = Inr (Some img)"
  shows "transform e i a s =
    process e (buildCacheKey (hash e) i (options s) (constructor_name a)) a img
     (s\<lparr>trace := trace s @ [CacheGet (buildCacheKey (hash e) i (options s) (constructor_name a)),
                            FetchOriginal i a]\<rparr>)"
  using assms by (simp add: transform_def prim_defs Let_def)

lemma blur_stage_Inr:
  assumes "blur_stage e opts t s = (Inr t', s')"
  shows "t' = t\<lparr>pipeline := pipeline t @ (if blur opts then [Blur (blurSigma opts)] else [])\<rparr>
       \<and> options s' = options s \<and> cache s' = cache s"
  using assms by (auto simp: blur_stage_def call_eqs returnM_def split: if_splits option.splits)

lemma resolve_format_Inr:
  assumes "resolve_format e opts t s = (Inr u, s')"
  shows "cache s' = cache s
     \<and> (if format_missing (format opts)
         then \<exists>f. metadata e t = Inr f \<and> options s' = (options s)\<lparr>format := f\<rparr>
         else options s' = options s)"
  using assms
  by (auto simp: resolve_format_def bindM_Inr call_eqs returnM_def set_format_def split: if_splits)

lemma geometry_smartcrop_Inr:
  assumes "geometry_stage e opts img t s = (Inr t', s')" and "smartcrop opts"
  shows "\<exists>c. smartcrop_crop e img (fst (getCropDimensions (cropMaxSize e) (width opts) (height opts)))
               (snd (getCropDimensions (cropMaxSize e) (width opts) (height opts))) = Inr c
     \<and> t' = t\<lparr>pipeline := pipeline t @
           [Extract (crop_width c) (crop_height c) (crop_x c) (crop_y c),
            Resize (fst (getCropDimensions (cropMaxSize e) (width opts) (height opts)))
              (Some (fst (getCropDimensions (cropMaxSize e) (width opts) (height opts)))) None]\<rparr>
     \<and> options s' = options s \<and> cache s' = cache s
     \<and> trace s' = trace s @
          [SmartcropCrop img (fst (getCropDimensions (cropMaxSize e) (width opts) (height opts)))
             (snd (getCropDimensions (cropMaxSize e) (width opts) (height opts))),
           EngineCall (Extract (crop_width c) (crop_height c) (crop_x c) (crop_y c)),
           EngineCall (Resize (fst (getCropDimensions (cropMaxSize e) (width opts) (height opts)))
              (Some (fst (getCropDimensions (cropMaxSize e) (width opts) (height opts)))) None)]"
  using assms
  by (auto simp: geometry_stage_def bindM_Inr call_eqs split: prod.splits option.splits)

lemma geometry_default_Inr:
  assumes "geometry_stage e opts img t s = (Inr t', s')" and "\<not> smartcrop opts" and "\<not> crop opts"
  shows "t' = t\<lparr>pipeline := pipeline t @
           [Resize (Num (width opts)) (map_option Num (height opts))
             (Some \<lparr>fit = Some ''inside'', position = None,
                    withoutEnlargement = Some True, background = None\<rparr>)]\<rparr>
     \<and> options s' = options s \<and> cache s' = cache s
     \<and> trace s' = trace s @
           [EngineCall (Resize (Num (width opts)) (map_option Num (height opts))
             (Some \<lparr>fit = Some ''inside'', position = None,
                    withoutEnlargement = Some True, background = None\<rparr>))]"
  using assms
  by (auto simp: geometry_stage_def call_eqs split: option.splits)

lemma overlay_stage_Inr:
  assumes "overlay_stage e opts a t s = (Inr t', s')"
  shows "input t' = input t \<and> filter geometric (pipeline t') = filter geometric (pipeline t)
     \<and> options s' = options s \<and> cache s' = cache s"
  using assms
  by (auto simp: overlay_stage_def bindM_Inr call_eqs returnM_def split: if_splits option.splits)

lemma overlay_stage_on_Inr:
  assumes "overlay_stage e opts a t s = (Inr t', s')" and "overlay opts"
  shows "\<exists>fetched ov. fetchOverlay e (overlayImage opts) a = Inr fetched
     \<and> toBuffer e \<lparr>input = fetched, pipeline =
          [Resize (Num 200) (Some (Num 200))
             (Some \<lparr>fit = Some ''contain'', position = None,
                    withoutEnlargement = None, background = Some (255, 255, 255, 0)\<rparr>),
           Flatten ''#ff6600'']\<rparr> = Inr ov
     \<and> t' = t\<lparr>pipeline := pipeline t @ [Composite [(ov, 35, 35)]]\<rparr>"
  using assms
  by (auto simp: overlay_stage_def bindM_Inr call_eqs split: if_splits option.splits)

lemma encode_and_store_Inr:
  assumes "encode_and_store e k opts t s = (Inr r, s')"
  shows "\<exists>b. toBuffer e (t\<lparr>pipeline := pipeline t @ [ToFormat (format opts) (progressive opts) (quality opts)]\<rparr>) = Inr b
     \<and> r = \<lparr>result_format = format opts, image = Some b\<rparr>
     \<and> options s' = options s
     \<and> cache s' = (cache s)(k \<mapsto> r)
     \<and> trace s' = trace s @
         [EngineCall (ToFormat (format opts) (progressive opts) (quality opts)),
          EngineToBuffer (t\<lparr>pipeline := pipeline t @ [ToFormat (format opts) (progressive opts) (quality opts)]\<rparr>),
          CacheSet k r]"
  using assms
  by (auto simp: encode_and_store_def bindM_Inr call_eqs returnM_def split: option.splits)

lemma process_Inr:
  assumes "process e k a img s = (Inr r, s')"
  shows "\<exists>t2 s2 s3 t3 s4 t4 s5.
     blur_stage e (options s) \<lparr>input = Some img, pipeline = [Rotate]\<rparr>
        (s\<lparr>trace := trace s @ [EngineNew (Some img), EngineCall Rotate]\<rparr>) = (Inr t2, s2)
   \<and> resolve_format e (options s) t2 s2 = (Inr (), s3)
   \<and> geometry_stage e (options s3) img t2 s3 = (Inr t3, s4)
   \<and> overlay_stage e (options s3) a t3 s4 = (Inr t4, s5)
   \<and> encode_and_store e k (options s3) t4 s5 = (Inr r, s')"
  using assms
  by (auto simp: process_def bindM_Inr call_eqs get_options_def split: option.splits)

subsection \<open>Steps that do not write the cache\<close>

lemma quiet_returnM: "quiet (returnM v)"
  by (simp add: quiet_def returnM_def)

lemma quiet_throwM: "quiet (throwM v)"
  by (simp add: quiet_def throwM_def)

lemma quiet_settle: "quiet (settle r)"
  by (simp add: settle_def quiet_returnM quiet_throwM split: sum.splits)

lemma quiet_get_options: "quiet get_options"
  by (simp add: quiet_def get_options_def)

lemma quiet_set_format: "quiet (set_format f)"
  by (simp add: quiet_def set_format_def)

lemma quiet_emit: "is_processing ev \<Longrightarrow> quiet (emit ev)"
  by (simp add: quiet_def emit_def)

lemma quiet_bindM:
  assumes "quiet m" and "\<And>x. quiet (f x)"
  shows "quiet (bindM m f)"
  unfolding quiet_def
proof (intro allI)
  fix s
  obtain r s1 where ms: "m s = (r, s1)" by (cases "m s")
  from assms(1) ms obtain evs1 where
    c1: "cache s1 = cache s" and t1: "trace s1 = trace s @ evs1" and p1: "list_all is_processing evs1"
    unfolding quiet_def by (metis snd_conv)
  show "cache (snd (bindM m f s)) = cache s \<and>
        (\<exists>evs. trace (snd (bindM m f s)) = trace s @ evs \<and> list_all is_processing evs)"
  proof (cases r)
    case (Inl err)
    with ms c1 t1 p1 show ?thesis by (auto simp: bindM_def)
  next
    case (Inr x)
    from assms(2)[of x] obtain evs2 where
      c2: "cache (snd (f x s1)) = cache s1" and t2: "trace (snd (f x s1)) = trace s1 @ evs2"
      and p2: "list_all is_processing evs2"
      unfolding quiet_def by blast
    have "bindM m f s = f x s1" using ms Inr by (simp add: bindM_def)
    with c1 c2 t1 t2 p1 p2 show ?thesis by auto
  qed
qed

lemmas quiet_intros = quiet_returnM quiet_throwM quiet_settle quiet_get_options quiet_set_format
  quiet_emit quiet_bindM

lemma quiet_fetch_overlay: "quiet (fetch_overlay e i a)"
  by (auto simp: fetch_overlay_def intro!: quiet_intros)

lemma quiet_sharp_new: "quiet (sharp_new e i)"
  by (auto simp: sharp_new_def intro!: quiet_intros split: option.splits)

lemma quiet_sharp_call: "quiet (sharp_call e opn t)"
  by (auto simp: sharp_call_def intro!: quiet_intros split: option.splits)

lemma quiet_sharp_metadata: "quiet (sharp_metadata e t)"
  by (auto simp: sharp_metadata_def intro!: quiet_intros)

lemma quiet_sharp_toBuffer: "quiet (sharp_toBuffer e t)"
  by (auto simp: sharp_toBuffer_def intro!: quiet_intros)

lemma quiet_smartcrop_call: "quiet (smartcrop_call e img w h)"
  by (auto simp: smartcrop_call_def intro!: quiet_intros)

lemmas quiet_calls = quiet_fetch_overlay quiet_sharp_new quiet_sharp_call quiet_sharp_metadata
  quiet_sharp_toBuffer quiet_smartcrop_call

lemma quiet_blur_stage: "quiet (blur_stage e opts t)"
  by (auto simp: blur_stage_def intro!: quiet_intros quiet_calls)

lemma quiet_resolve_format: "quiet (resolve_format e opts t)"
  by (auto simp: resolve_format_def intro!: quiet_intros quiet_calls)

lemma quiet_geometry_stage: "quiet (geometry_stage e opts img t)"
  by (auto simp: geometry_stage_def intro!: quiet_intros quiet_calls split: prod.splits)

lemma quiet_overlay_stage: "quiet (overlay_stage e opts a t)"
  by (auto simp: overlay_stage_def intro!: quiet_intros quiet_calls)

lemmas quiet_stages = quiet_blur_stage quiet_resolve_format quiet_geometry_stage quiet_overlay_stage

lemma stores_last_bindM:
  assumes "quiet m" and "\<And>x. stores_last e k (f x)"
  shows "stores_last e k (bindM m f)"
  unfolding stores_last_def
proof (intro allI)
  fix s
  obtain r s1 where ms: "m s = (r, s1)" by (cases "m s")
  from assms(1) ms obtain evs1 where
    c1: "cache s1 = cache s" and t1: "trace s1 = trace s @ evs1" and p1: "list_all is_processing evs1"
    unfolding quiet_def by (metis snd_conv)
  show "case bindM m f s of
          (Inl err, s') \<Rightarrow> cache s' = cache s
             \<and> (\<exists>evs. trace s' = trace s @ evs \<and> list_all is_processing evs)
        | (Inr v, s') \<Rightarrow> cache s' = (cache s)(k \<mapsto> v)
             \<and> (\<exists>evs t b. trace s' = trace s @ evs @ [EngineToBuffer t, CacheSet k v]
                   \<and> list_all is_processing evs \<and> toBuffer e t = Inr b \<and> image v = Some b)"
  proof (cases r)
    case (Inl err)
    with ms c1 t1 p1 show ?thesis by (auto simp: bindM_def)
  next
    case (Inr x)
    have eq: "bindM m f s = f x s1" using ms Inr by (simp add: bindM_def)
    obtain r2 s2 where fs: "f x s1 = (r2, s2)" by (cases "f x s1")
    from assms(2)[of x] fs have
      post: "case (r2, s2) of
          (Inl err, s') \<Rightarrow> cache s' = cache s1
             \<and> (\<exists>evs. trace s' = trace s1 @ evs \<and> list_all is_processing evs)
        | (Inr v, s') \<Rightarrow> cache s' = (cache s1)(k \<mapsto> v)
             \<and> (\<exists>evs t b. trace s' = trace s1 @ evs @ [EngineToBuffer t, CacheSet k v]
                   \<and> list_all is_processing evs \<and> toBuffer e t = Inr b \<and> image v = Some b)"
      unfolding stores_last_def by (metis (no_types, lifting))
    show ?thesis
    proof (cases r2)
      case (Inl err)
      with post obtain evs2 where "cache s2 = cache s1" "trace s2 = trace s1 @ evs2"
        "list_all is_processing evs2" by auto
      with eq fs Inl c1 t1 p1 show ?thesis by auto
    next
      case (Inr v)
      with post obtain evs2 t b where "cache s2 = (cache s1)(k \<mapsto> v)"
        "trace s2 = trace s1 @ evs2 @ [EngineToBuffer t, CacheSet k v]"
        "list_all is_processing evs2" "toBuffer e t = Inr b" "image v = Some b" by auto
      with eq fs Inr c1 t1 p1 show ?thesis
        by (auto intro!: exI[of _ "evs1 @ evs2"])
    qed
  qed
qed

lemma stores_last_encode: "stores_last e k (encode_and_store e k opts t)"
  unfolding stores_last_def encode_and_store_def
  by (auto simp: bindM_def call_eqs returnM_def split: option.splits sum.splits prod.splits
       intro!: exI[of _ "[EngineCall (ToFormat (format opts) (progressive opts) (quality opts))]"])

lemma stores_last_process: "stores_last e k (process e k a img)"
  unfolding process_def
  by (intro stores_last_bindM stores_last_encode quiet_intros quiet_calls quiet_stages)

subsection \<open>Steps that do not touch the options\<close>

lemma keeps_options_returnM: "keeps_options (returnM v)"
  by (simp add: keeps_options_def returnM_def)

lemma keeps_options_throwM: "keeps_options (throwM v)"
  by (simp add: keeps_options_def throwM_def)

lemma keeps_options_settle: "keeps_options (settle r)"
  by (simp add: settle_def keeps_options_returnM keeps_options_throwM split: sum.splits)

lemma keeps_options_get_options: "keeps_options get_options"
  by (simp add: keeps_options_def get_options_def)

lemma keeps_options_emit: "keeps_options (emit ev)"
  by (simp add: keeps_options_def emit_def)

lemma keeps_options_bindM:
  assumes "keeps_options m" and "\<And>x. keeps_options (f x)"
  shows "keeps_options (bindM m f)"
  unfolding keeps_options_def
proof (intro allI)
  fix s
  obtain r s1 where ms: "m s = (r, s1)" by (cases "m s")
  with assms(1) have o1: "options s1 = options s"
    unfolding keeps_options_def by (metis snd_conv)
  show "options (snd (bindM m f s)) = options s"
  proof (cases r)
    case (Inl err)
    with ms o1 show ?thesis by (simp add: bindM_def)
  next
    case (Inr x)
    with ms have "bindM m f s = f x s1" by (simp add: bindM_def)
    with assms(2)[of x] o1 show ?thesis by (simp add: keeps_options_def)
  qed
qed

lemmas keeps_options_intros = keeps_options_returnM keeps_options_throwM keeps_options_settle
  keeps_options_get_options keeps_options_emit keeps_options_bindM

lemma keeps_options_cache_set: "keeps_options (cache_set k v)"
  by (simp add: keeps_options_def cache_set_eq)

lemma keeps_options_fetch_overlay: "keeps_options (fetch_overlay e i a)"
  by (auto simp: fetch_overlay_def intro!: keeps_options_intros)

lemma keeps_options_sharp_new: "keeps_options (sharp_new e i)"
  by (auto simp: sharp_new_def intro!: keeps_options_intros split: option.splits)

lemma keeps_options_sharp_call: "keeps_options (sharp_call e opn t)"
  by (auto simp: sharp_call_def intro!: keeps_options_intros split: option.splits)

lemma keeps_options_sharp_toBuffer: "keeps_options (sharp_toBuffer e t)"
  by (auto simp: sharp_toBuffer_def intro!: keeps_options_intros)

lemma keeps_options_smartcrop_call: "keeps_options (smartcrop_call e img w h)"
  by (auto simp: smartcrop_call_def intro!: keeps_options_intros)

lemmas keeps_options_calls = keeps_options_cache_set keeps_options_fetch_overlay
  keeps_options_sharp_new keeps_options_sharp_call keeps_options_sharp_toBuffer
  keeps_options_smartcrop_call

lemma keeps_options_geometry_stage: "keeps_options (geometry_stage e opts img t)"
  by (auto simp: geometry_stage_def intro!: keeps_options_intros keeps_options_calls split: prod.splits)

lemma keeps_options_overlay_stage: "keeps_options (overlay_stage e opts a t)"
  by (auto simp: overlay_stage_def intro!: keeps_options_intros keeps_options_calls)

lemma keeps_options_encode_and_store: "keeps_options (encode_and_store e k opts t)"
  by (auto simp: encode_and_store_def intro!: keeps_options_intros keeps_options_calls)

text \<open>The part of process after the format has been resolved.\<close>

lemma keeps_options_rest:
  "keeps_options
     (bindM get_options (\<lambda>opts'.
        bindM (geometry_stage e opts' img t2) (\<lambda>t3.
        bindM (overlay_stage e opts' a t3) (\<lambda>t4.
        encode_and_store e k opts' t4))))"
  by (intro keeps_options_intros keeps_options_geometry_stage keeps_options_overlay_stage
        keeps_options_encode_and_store)

lemma options_bindM:
  "options (snd (bindM m f s)) =
     (case m s of (Inl err, s1) \<Rightarrow> options s1 | (Inr x, s1) \<Rightarrow> options (snd (f x s1)))"
  by (simp add: bindM_def split: prod.splits sum.splits)

lemma blur_stage_eq:
  "blur_stage e opts t s =
     (if blur opts then sharp_call e (Blur (blurSigma opts)) t s else (Inr t, s))"
  by (simp add: blur_stage_def returnM_def)

lemma resolve_format_eq:
  "resolve_format e opts t s =
     (if format_missing (format opts)
      then (case metadata e t of
              Inl err \<Rightarrow> (Inl err, s\<lparr>trace := trace s @ [EngineMetadata t]\<rparr>)
            | Inr f \<Rightarrow> (Inr (), s\<lparr>trace := trace s @ [EngineMetadata t],
                                   options := (options s)\<lparr>format := f\<rparr>\<rparr>))
      else (Inr (), s))"
  by (simp add: resolve_format_def returnM_def bindM_def sharp_metadata_eq set_format_def
        split: sum.splits)

lemma options_after_process:
  "options (snd (process e k a img s)) =
     (if construct e (Some img) = None \<and> accepts e Rotate = None
          \<and> (blur (options s) \<longrightarrow> accepts e (Blur (blurSigma (options s))) = None)
          \<and> format_missing (format (options s))
      then (case metadata e \<lparr>input = Some img,
                   pipeline = Rotate # (if blur (options s) then [Blur (blurSigma (options s))] else [])\<rparr> of
              Inl err \<Rightarrow> options s
            | Inr f \<Rightarrow> (options s)\<lparr>format := f\<rparr>)
      else options s)"
proof -
  define rest where "rest = (\<lambda>t2. bindM get_options (\<lambda>opts'.
        bindM (geometry_stage e opts' img t2) (\<lambda>t3.
        bindM (overlay_stage e opts' a t3) (\<lambda>t4.
        encode_and_store e k opts' t4))))"
  have kp: "\<And>t2 s2. options (snd (rest t2 s2)) = options s2"
    using keeps_options_rest unfolding keeps_options_def rest_def by blast
  have p: "process e k a img =
     bindM get_options (\<lambda>opts.
     bindM (sharp_new e (Some img)) (\<lambda>t0.
     bindM (sharp_call e Rotate t0) (\<lambda>t1.
     bindM (blur_stage e opts t1) (\<lambda>t2.
     bindM (resolve_format e opts t2) (\<lambda>_. rest t2)))))"
    unfolding process_def rest_def ..
  show ?thesis
    unfolding p
    by (simp add: options_bindM call_eqs get_options_def blur_stage_eq resolve_format_eq kp
          split: option.splits sum.splits)
qed

subsection \<open>The outcomes of transform\<close>

lemma transform_outcome:
  assumes "transform e i a s = (r, s')"
  shows "(\<exists>r0. cache s (buildCacheKey (hash e) i (options s) (constructor_name a)) = Some r0
            \<and> r = Inr r0
            \<and> s' = s\<lparr>trace := trace s @ [CacheGet (buildCacheKey (hash e) i (options s) (constructor_name a))]\<rparr>)
       \<or> (cache s (buildCacheKey (hash e) i (options s) (constructor_name a)) = None
            \<and> (\<exists>err. fetchOriginal e i a = Inl err \<and> r = Inl err)
            \<and> s' = s\<lparr>trace := trace s @ [CacheGet (buildCacheKey (hash e) i (options s) (constructor_name a)),
                                           FetchOriginal i a]\<rparr>)
       \<or> (cache s (buildCacheKey (hash e) i (options s) (constructor_name a)) = None
            \<and> fetchOriginal e i a = Inr None
            \<and> r = Inr \<lparr>result_format = format (options s), image = None\<rparr>
            \<and> s' = s\<lparr>trace := trace s @ [CacheGet (buildCacheKey (hash e) i (options s) (constructor_name a)),
                                           FetchOriginal i a]\<rparr>)
       \<or> (cache s (buildCacheKey (hash e) i (options s) (constructor_name a)) = None
            \<and> (\<exists>img. fetchOriginal e i a = Inr (Some img)
                  \<and> process e (buildCacheKey (hash e) i (options s) (constructor_name a)) a img
                      (s\<lparr>trace := trace s @ [CacheGet (buildCacheKey (hash e) i (options s) (constructor_name a)),
                                             FetchOriginal i a]\<rparr>) = (r, s')))"
proof (cases "cache s (buildCacheKey (hash e) i (options s) (constructor_name a))")
  case (Some r0)
  from transform_hit [OF Some] assms Some show ?thesis by simp
next
  case None
  show ?thesis
  proof (cases "fetchOriginal e i a")
    case (Inl err)
    from transform_fetch_rejected [OF None Inl] assms None Inl show ?thesis by simp
  next
    case (Inr fetched)
    show ?thesis
    proof (cases fetched)
      case fnone: None
      with Inr have f: "fetchOriginal e i a = Inr None" by simp
      from transform_fetch_none [OF None f] assms None f show ?thesis by simp
    next
      case (Some img)
      with Inr have f: "fetchOriginal e i a = Inr (Some img)" by simp
      from transform_fetched [OF None f] assms None f show ?thesis by simp
    qed
  qed
qed

lemma process_failure:
  assumes "process e k a img s = (Inl err, s')"
  shows "cache s' = cache s \<and> (\<exists>evs. trace s' = trace s @ evs \<and> list_all is_processing evs)"
proof -
  from stores_last_process [of e k a img]
  have "case process e k a img s of
          (Inl err, s') \<Rightarrow> cache s' = cache s
             \<and> (\<exists>evs. trace s' = trace s @ evs \<and> list_all is_processing evs)
        | (Inr v, s') \<Rightarrow> cache s' = (cache s)(k \<mapsto> v)
             \<and> (\<exists>evs t b. trace s' = trace s @ evs @ [EngineToBuffer t, CacheSet k v]
                   \<and> list_all is_processing evs \<and> toBuffer e t = Inr b \<and> image v = Some b)"
    unfolding stores_last_def by (rule spec)
  with assms show ?thesis by simp
qed

lemma process_success:
  assumes "process e k a img s = (Inr v, s')"
  shows "cache s' = (cache s)(k \<mapsto> v)
     \<and> (\<exists>evs t b. trace s' = trace s @ evs @ [EngineToBuffer t, CacheSet k v]
            \<and> list_all is_processing evs \<and> toBuffer e t = Inr b \<and> image v = Some b)"
proof -
  from stores_last_process [of e k a img]
  have "case process e k a img s of
          (Inl err, s') \<Rightarrow> cache s' = cache s
             \<and> (\<exists>evs. trace s' = trace s @ evs \<and> list_all is_processing evs)
        | (Inr v, s') \<Rightarrow> cache s' = (cache s)(k \<mapsto> v)
             \<and> (\<exists>evs t b. trace s' = trace s @ evs @ [EngineToBuffer t, CacheSet k v]
                   \<and> list_all is_processing evs \<and> toBuffer e t = Inr b \<and> image v = Some b)"
    unfolding stores_last_def by (rule spec)
  with assms show ?thesis by simp
qed

lemma processing_no_cache_write: "list_all is_processing evs \<Longrightarrow> filter is_cache_write evs = []"
proof (induction evs)
  case Nil
  then show ?case by simp
next
  case (Cons ev evs)
  then show ?case by (cases ev) simp_all
qed


lemma quiet_run:
  assumes "quiet m" and "m s = (r, s')"
  shows "cache s' = cache s \<and> (\<exists>evs. trace s' = trace s @ evs \<and> list_all is_processing evs)"
  using assms unfolding quiet_def by (metis snd_conv)

lemma transform_trace_starts_with_lookup:
  "\<exists>evs. trace (snd (transform e i a s)) =
      trace s @ CacheGet (buildCacheKey (hash e) i (options s) (constructor_name a)) # evs"
proof -
  let ?k = "buildCacheKey (hash e) i (options s) (constructor_name a)"
  let ?s1 = "s\<lparr>trace := trace s @ [CacheGet ?k, FetchOriginal i a]\<rparr>"
  obtain r s' where run: "transform e i a s = (r, s')" by (cases "transform e i a s")
  from transform_outcome [OF run]
  consider
    (hit) "s' = s\<lparr>trace := trace s @ [CacheGet ?k]\<rparr>"
  | (nofetch) "s' = ?s1"
  | (fetched) img where "process e ?k a img ?s1 = (r, s')"
    by blast
  then have "\<exists>evs. trace s' = trace s @ CacheGet ?k # evs"
  proof cases
    case hit
    then show ?thesis by simp
  next
    case nofetch
    then show ?thesis by simp
  next
    case fetched
    show ?thesis
    proof (cases r)
      case (Inl err)
      with fetched process_failure [of e ?k a img ?s1 err s'] show ?thesis by auto
    next
      case (Inr v)
      with fetched process_success [of e ?k a img ?s1 v s'] show ?thesis by auto
    qed
  qed
  with run show ?thesis by simp
qed

text \<open>What a successful run of \<open>process\<close> has done, stage by stage.\<close>

lemma process_success_stages:
  assumes "process e k a img s = (Inr v, s')"
  shows "\<exists>pre t3 s3 s4 t4 post b.
      options s3 = (options s)\<lparr>format := format (options s3)\<rparr>
    \<and> trace s3 = trace s @ pre
    \<and> geometry_stage e (options s3) img
         \<lparr>input = Some img,
          pipeline = Rotate # (if blur (options s) then [Blur (blurSigma (options s))] else [])\<rparr> s3
        = (Inr t3, s4)
    \<and> input t4 = input t3
    \<and> filter geometric (pipeline t4) = filter geometric (pipeline t3)
    \<and> (overlay (options s) \<longrightarrow>
         (\<exists>fetched ov. fetchOverlay e (overlayImage (options s)) a = Inr fetched
            \<and> toBuffer e \<lparr>input = fetched, pipeline =
                 [Resize (Num 200) (Some (Num 200))
                    (Some \<lparr>fit = Some ''contain'', position = None,
                           withoutEnlargement = None, background = Some (255, 255, 255, 0)\<rparr>),
                  Flatten ''#ff6600'']\<rparr> = Inr ov
            \<and> pipeline t4 = pipeline t3 @ [Composite [(ov, 35, 35)]]))
    \<and> trace s' = trace s4 @ post
    \<and> toBuffer e (t4\<lparr>pipeline := pipeline t4 @
          [ToFormat (format (options s3)) (progressive (options s3)) (quality (options s3))]\<rparr>) = Inr b
    \<and> v = \<lparr>result_format = format (options s3), image = Some b\<rparr>"
proof -
  from process_Inr [OF assms] obtain t2 s2 s3 t3 s4 t4 s5 where
    b: "blur_stage e (options s) \<lparr>input = Some img, pipeline = [Rotate]\<rparr>
          (s\<lparr>trace := trace s @ [EngineNew (Some img), EngineCall Rotate]\<rparr>) = (Inr t2, s2)"
    and f: "resolve_format e (options s) t2 s2 = (Inr (), s3)"
    and g: "geometry_stage e (options s3) img t2 s3 = (Inr t3, s4)"
    and o: "overlay_stage e (options s3) a t3 s4 = (Inr t4, s5)"
    and c: "encode_and_store e k (options s3) t4 s5 = (Inr v, s')"
    by blast
  from blur_stage_Inr [OF b] have t2: "t2 = \<lparr>input = Some img,
      pipeline = Rotate # (if blur (options s) then [Blur (blurSigma (options s))] else [])\<rparr>"
    and o2: "options s2 = options s" by auto
  from quiet_run [OF quiet_blur_stage b] obtain evs2 where
    tr2: "trace s2 = trace s @ [EngineNew (Some img), EngineCall Rotate] @ evs2" by auto
  from resolve_format_Inr [OF f] o2 have o3: "options s3 = (options s)\<lparr>format := format (options s3)\<rparr>"
    by (auto split: if_splits)
  from quiet_run [OF quiet_resolve_format f] obtain evs3 where tr3: "trace s3 = trace s2 @ evs3" by auto
  from overlay_stage_Inr [OF o] have i4: "input t4 = input t3"
    and g4: "filter geometric (pipeline t4) = filter geometric (pipeline t3)" by auto
  from o3 have ov: "overlay (options s3) = overlay (options s)"
    and oi: "overlayImage (options s3) = overlayImage (options s)"
    by (metis ResizeDto.select_convs(11) ResizeDto.surjective ResizeDto.update_convs(3),
        metis ResizeDto.select_convs(12) ResizeDto.surjective ResizeDto.update_convs(3))
  have ovl: "overlay (options s) \<longrightarrow>
         (\<exists>fetched ov. fetchOverlay e (overlayImage (options s)) a = Inr fetched
            \<and> toBuffer e \<lparr>input = fetched, pipeline =
                 [Resize (Num 200) (Some (Num 200))
                    (Some \<lparr>fit = Some ''contain'', position = None,
                           withoutEnlargement = None, background = Some (255, 255, 255, 0)\<rparr>),
                  Flatten ''#ff6600'']\<rparr> = Inr ov
            \<and> pipeline t4 = pipeline t3 @ [Composite [(ov, 35, 35)]])"
  proof
    assume "overlay (options s)"
    with ov have "overlay (options s3)" by simp
    from overlay_stage_on_Inr [OF o this] oi show "\<exists>fetched ov.
        fetchOverlay e (overlayImage (options s)) a = Inr fetched
            \<and> toBuffer e \<lparr>input = fetched, pipeline =
                 [Resize (Num 200) (Some (Num 200))
                    (Some \<lparr>fit = Some ''contain'', position = None,
                           withoutEnlargement = None, background = Some (255, 255, 255, 0)\<rparr>),
                  Flatten ''#ff6600'']\<rparr> = Inr ov
            \<and> pipeline t4 = pipeline t3 @ [Composite [(ov, 35, 35)]]"
      by auto
  qed
  from quiet_run [OF quiet_overlay_stage o] obtain evs5 where tr5: "trace s5 = trace s4 @ evs5" by auto
  from encode_and_store_Inr [OF c] obtain b where
    tb: "toBuffer e (t4\<lparr>pipeline := pipeline t4 @
          [ToFormat (format (options s3)) (progressive (options s3)) (quality (options s3))]\<rparr>) = Inr b"
    and v: "v = \<lparr>result_format = format (options s3), image = Some b\<rparr>"
    and tr': "trace s' = trace s5 @
         [EngineCall (ToFormat (format (options s3)) (progressive (options s3)) (quality (options s3))),
          EngineToBuffer (t4\<lparr>pipeline := pipeline t4 @
             [ToFormat (format (options s3)) (progressive (options s3)) (quality (options s3))]\<rparr>),
          CacheSet k v]"
    by blast
  have tr3': "trace s3 = trace s @ ([EngineNew (Some img), EngineCall Rotate] @ evs2 @ evs3)"
    using tr2 tr3 by simp
  have tr'': "trace s' = trace s4 @ (evs5 @
         [EngineCall (ToFormat (format (options s3)) (progressive (options s3)) (quality (options s3))),
          EngineToBuffer (t4\<lparr>pipeline := pipeline t4 @
             [ToFormat (format (options s3)) (progressive (options s3)) (quality (options s3))]\<rparr>),
          CacheSet k v])"
    using tr5 tr' by simp
  from o3 tr3' g[unfolded t2] i4 g4 ovl tr'' tb v show ?thesis by blast
qed

lemma transform_success_stages:
  assumes "cache s (buildCacheKey (hash e) i (options s) (constructor_name a)) = None"
    and "fetchOriginal e i a = Inr (Some img)"
    and "transform e i a s = (Inr v, s')"
  shows "\<exists>pre t3 s3 s4 t4 post b.
      options s3 = (options s)\<lparr>format := format (options s3)\<rparr>
    \<and> trace s3 = trace s @ pre
    \<and> geometry_stage e (options s3) img
         \<lparr>input = Some img,
          pipeline = Rotate # (if blur (options s) then [Blur (blurSigma (options s))] else [])\<rparr> s3
        = (Inr t3, s4)
    \<and> input t4 = input t3
    \<and> filter geometric (pipeline t4) = filter geometric (pipeline t3)
    \<and> (overlay (options s) \<longrightarrow>
         (\<exists>fetched ov. fetchOverlay e (overlayImage (options s)) a = Inr fetched
            \<and> toBuffer e \<lparr>input = fetched, pipeline =
                 [Resize (Num 200) (Some (Num 200))
                    (Some \<lparr>fit = Some ''contain'', position = None,
                           withoutEnlargement = None, background = Some (255, 255, 255, 0)\<rparr>),
                  Flatten ''#ff6600'']\<rparr> = Inr ov
            \<and> pipeline t4 = pipeline t3 @ [Composite [(ov, 35, 35)]]))
    \<and> trace s' = trace s4 @ post
    \<and> toBuffer e (t4\<lparr>pipeline := pipeline t4 @
          [ToFormat (format (options s3)) (progressive (options s3)) (quality (options s3))]\<rparr>) = Inr b
    \<and> v = \<lparr>result_format = format (options s3), image = Some b\<rparr>"
proof -
  let ?k = "buildCacheKey (hash e) i (options s) (constructor_name a)"
  let ?s1 = "s\<lparr>trace := trace s @ [CacheGet ?k, FetchOriginal i a]\<rparr>"
  from transform_fetched [OF assms(1,2)] assms(3)
  have p: "process e ?k a img ?s1 = (Inr v, s')" by simp
  have o1: "options ?s1 = options s" by simp
  from process_success_stages [OF p] obtain pre t3 s3 s4 t4 post b where
      "options s3 = (options ?s1)\<lparr>format := format (options s3)\<rparr>"
    and "trace s3 = trace ?s1 @ pre"
    and "geometry_stage e (options s3) img
         \<lparr>input = Some img,
          pipeline = Rotate # (if blur (options ?s1) then [Blur (blurSigma (options ?s1))] else [])\<rparr> s3
        = (Inr t3, s4)"
    and "input t4 = input t3"
    and "filter geometric (pipeline t4) = filter geometric (pipeline t3)"
    and "overlay (options ?s1) \<longrightarrow>
         (\<exists>fetched ov. fetchOverlay e (overlayImage (options ?s1)) a = Inr fetched
            \<and> toBuffer e \<lparr>input = fetched, pipeline =
                 [Resize (Num 200) (Some (Num 200))
                    (Some \<lparr>fit = Some ''contain'', position = None,
                           withoutEnlargement = None, background = Some (255, 255, 255, 0)\<rparr>),
                  Flatten ''#ff6600'']\<rparr> = Inr ov
            \<and> pipeline t4 = pipeline t3 @ [Composite [(ov, 35, 35)]])"
    and "trace s' = trace s4 @ post"
    and "toBuffer e (t4\<lparr>pipeline := pipeline t4 @
          [ToFormat (format (options s3)) (progressive (options s3)) (quality (options s3))]\<rparr>) = Inr b"
    and "v = \<lparr>result_format = format (options s3), image = Some b\<rparr>"
    by blast
  then have
      "options s3 = (options s)\<lparr>format := format (options s3)\<rparr>"
    and "trace s3 = trace s @ ([CacheGet ?k, FetchOriginal i a] @ pre)"
    and "geometry_stage e (options s3) img
         \<lparr>input = Some img,
          pipeline = Rotate # (if blur (options s) then [Blur (blurSigma (options s))] else [])\<rparr> s3
        = (Inr t3, s4)"
    and "input t4 = input t3"
    and "filter geometric (pipeline t4) = filter geometric (pipeline t3)"
    and "overlay (options s) \<longrightarrow>
         (\<exists>fetched ov. fetchOverlay e (overlayImage (options s)) a = Inr fetched
            \<and> toBuffer e \<lparr>input = fetched, pipeline =
                 [Resize (Num 200) (Some (Num 200))
                    (Some \<lparr>fit = Some ''contain'', position = None,
                           withoutEnlargement = None, background = Some (255, 255, 255, 0)\<rparr>),
                  Flatten ''#ff6600'']\<rparr> = Inr ov
            \<and> pipeline t4 = pipeline t3 @ [Composite [(ov, 35, 35)]])"
    and "trace s' = trace s4 @ post"
    and "toBuffer e (t4\<lparr>pipeline := pipeline t4 @
          [ToFormat (format (options s3)) (progressive (options s3)) (quality (options s3))]\<rparr>) = Inr b"
    and "v = \<lparr>result_format = format (options s3), image = Some b\<rparr>"
    unfolding o1 by simp_all
  then show ?thesis by blast
qed

text \<open>The options object after a call, whatever its outcome.\<close>

lemma options_after_transform:
  "options (snd (transform e i a s)) =
     (if cache s (buildCacheKey (hash e) i (options s) (constructor_name a)) = None
         \<and> format_missing (format (options s))
      then
        (case fetchOriginal e i a of
           Inr (Some img) \<Rightarrow>
             if construct e (Some img) = None \<and> accepts e Rotate = None
                \<and> (blur (options s) \<longrightarrow> accepts e (Blur (blurSigma (options s))) = None)
             then
               (case metadata e \<lparr>input = Some img,
                       pipeline = Rotate # (if blur (options s) then [Blur (blurSigma (options s))] else [])\<rparr> of
                  Inr f \<Rightarrow> (options s)\<lparr>format := f\<rparr>
                | Inl err \<Rightarrow> options s)
             else options s
         | _ \<Rightarrow> options s)
      else options s)"
proof (cases "cache s (buildCacheKey (hash e) i (options s) (constructor_name a))")
  case (Some r0)
  from transform_hit [OF Some] Some show ?thesis by simp
next
  case None
  show ?thesis
  proof (cases "fetchOriginal e i a")
    case (Inl err)
    from transform_fetch_rejected [OF None Inl] Inl show ?thesis by simp
  next
    case (Inr fetched)
    show ?thesis
    proof (cases fetched)
      case fnone: None
      with Inr have f: "fetchOriginal e i a = Inr None" by simp
      from transform_fetch_none [OF None f] f show ?thesis by simp
    next
      case (Some img)
      with Inr have f: "fetchOriginal e i a = Inr (Some img)" by simp
      let ?k = "buildCacheKey (hash e) i (options s) (constructor_name a)"
      let ?s1 = "s\<lparr>trace := trace s @ [CacheGet ?k, FetchOriginal i a]\<rparr>"
      have o1: "options ?s1 = options s" by simp
      note oap = options_after_process [of e ?k a img ?s1, unfolded o1]
      from transform_fetched [OF None f] have "transform e i a s = process e ?k a img ?s1" .
      then show ?thesis unfolding oap by (simp add: None f oap)
    qed
  qed
qed

subsection \<open>The size after a resize that fits inside\<close>

lemma resize_inside_bounds:
  assumes "0 < sw" and "0 < sh" and "resize_inside (sw, sh) w h = (ow, oh)"
  shows "ow \<le> w" and "\<forall>hh. h = Some hh \<longrightarrow> oh \<le> hh" and "ow \<le> sw" and "oh \<le> sh"
    and "ow * sh = oh * sw"
    and "sw \<le> w \<and> (\<forall>hh. h = Some hh \<longrightarrow> sh \<le> hh) \<longrightarrow> ow = sw \<and> oh = sh"
proof -
  let ?k = "inside_scale (sw, sh) w h"
  have ow: "ow = sw * ?k" and oh: "oh = sh * ?k" using assms(3) by (simp_all add: resize_inside_def)
  have k1: "?k \<le> 1" by (auto simp: inside_scale_def min_def split: option.splits)
  have kw: "?k \<le> w / sw" by (auto simp: inside_scale_def min_def split: option.splits)
  have kh: "\<And>hh. h = Some hh \<Longrightarrow> ?k \<le> hh / sh" by (auto simp: inside_scale_def min_def)
  from kw assms(1) have "sw * ?k \<le> w"
    by (metis mult.commute pos_le_divide_eq)
  then show "ow \<le> w" using ow by simp
  show "\<forall>hh. h = Some hh \<longrightarrow> oh \<le> hh"
  proof (intro allI impI)
    fix hh assume "h = Some hh"
    from kh [OF this] assms(2) have "sh * ?k \<le> hh" by (metis mult.commute pos_le_divide_eq)
    then show "oh \<le> hh" using oh by simp
  qed
  from k1 assms(1) have "sw * ?k \<le> sw * 1" by (intro mult_left_mono) simp_all
  then show "ow \<le> sw" using ow by simp
  from k1 assms(2) have "sh * ?k \<le> sh * 1" by (intro mult_left_mono) simp_all
  then show "oh \<le> sh" using oh by simp
  show "ow * sh = oh * sw" using ow oh by simp
  show "sw \<le> w \<and> (\<forall>hh. h = Some hh \<longrightarrow> sh \<le> hh) \<longrightarrow> ow = sw \<and> oh = sh"
  proof
    assume big: "sw \<le> w \<and> (\<forall>hh. h = Some hh \<longrightarrow> sh \<le> hh)"
    then have "1 \<le> w / sw" using assms(1) by simp
    moreover have "\<And>hh. h = Some hh \<Longrightarrow> 1 \<le> hh / sh" using big assms(2) by simp
    ultimately have "?k = 1" by (auto simp: inside_scale_def min_def split: option.splits)
    then show "ow = sw \<and> oh = sh" using ow oh by simp
  qed
qed

lemma output_size_inside:
  "output_size (Resize (Num w) (map_option Num h)
      (Some \<lparr>fit = Some ''inside'', position = None,
             withoutEnlargement = Some True, background = None\<rparr>)) src
   = Some (resize_inside src w h)"
  by (cases h) simp_all

subsection \<open>Runs with the stub collaborators\<close>

lemmas crop_defs = getCropDimensions_def or_else_def Let_def

lemmas stub_defs = stub_env_def stub_adapter_def stub_options_def stub_state_def stub_toBuffer_def

lemmas run_defs = transform_def process_def blur_stage_def resolve_format_def geometry_stage_def
  overlay_stage_def encode_and_store_def format_missing_def bindM_def returnM_def throwM_def
  settle_def get_options_def set_format_def emit_def cache_get_def cache_set_def
  fetch_original_def fetch_overlay_def sharp_new_def sharp_call_def sharp_metadata_def
  sharp_toBuffer_def smartcrop_call_def Let_def

lemma pair_with_snd: "fst p = x \<Longrightarrow> p = (x, snd p)"
  by (cases p) simp

lemma show_rat_numeral [simp]: "show_rat (numeral n) = show_int (numeral n) @ ''/'' @ show_int 1"
  by (simp add: show_rat_def)

lemma show_rat_1 [simp]: "show_rat 1 = show_int 1 @ ''/'' @ show_int 1"
  by (simp add: show_rat_def)

lemma stub_keys_differ:
  "canonical_hash stub_options \<noteq> canonical_hash (stub_options\<lparr>format := Some ''jpeg''\<rparr>)"
  by (simp add: canonical_hash_def stub_options_def show_option_def show_bool_def)

lemma stub_run_result:
  "fst (transform stub_env ''cat.jpg'' stub_adapter stub_state) =
     Inr \<lparr>result_format = Some ''jpeg'', image = Some [1, 2, 3, 3]\<rparr>"
  by (simp add: run_defs stub_defs)

lemma stub_run_overlay_missing:
  "fst (transform stub_env ''cat.jpg'' stub_adapter
          (stub_state\<lparr>options := stub_options\<lparr>overlay := True, overlayImage := Some ''none.png''\<rparr>\<rparr>)) =
     Inl (Error ''Input file is missing'')"
  by (simp add: run_defs stub_defs)

lemma stub_run_smartcrop:
  "fst (transform stub_env ''cat.jpg'' stub_adapter
          (stub_state\<lparr>options := stub_options\<lparr>smartcrop := True, crop := True\<rparr>\<rparr>)) =
     Inr \<lparr>result_format = Some ''jpeg'', image = Some [1, 2, 3, 4]\<rparr>"
  by (simp add: run_defs stub_defs crop_defs DEFAULT_CROP_MAX_SIZE_def)

section \<open>The claims\<close>

subsection \<open>C1: an overlay that cannot be fetched\<close>

text \<open>
  C1 says that an overlay whose fetch gives no bytes is skipped silently. The code does
  not skip it: the check of line 122 comes after the fetched value has gone through
  \<open>sharp(...).resize(...).flatten(...).toBuffer()\<close>, and it guards the log call only. So,
  with the overlay option set, the key absent from the cache, the source fetched and no
  bytes for the overlay, a call either fails, or it returns an image that the
  engine rendered from a pipeline holding the \<open>composite\<close> call, whose input is what the
  engine made of an instance without input.
\<close>

theorem overlay_without_bytes_is_not_skipped:
  assumes "overlay (options s)"
    and "cache s (buildCacheKey (hash e) i (options s) (constructor_name a)) = None"
    and "fetchOriginal e i a = Inr (Some img)"
    and "fetchOverlay e (overlayImage (options s)) a = Inr None"
    and "transform e i a s = (r, s')"
  shows "(\<exists>err. r = Inl err)
       \<or> (\<exists>v ov t b. r = Inr v
             \<and> toBuffer e \<lparr>input = None, pipeline =
                 [Resize (Num 200) (Some (Num 200))
                    (Some \<lparr>fit = Some ''contain'', position = None,
                           withoutEnlargement = None, background = Some (255, 255, 255, 0)\<rparr>),
                  Flatten ''#ff6600'']\<rparr> = Inr ov
             \<and> toBuffer e t = Inr b \<and> image v = Some b \<and> input t = Some img
             \<and> Composite [(ov, 35, 35)] \<in> set (pipeline t))"
proof (cases r)
  case (Inl err)
  then show ?thesis by simp
next
  case (Inr v)
  let ?k = "buildCacheKey (hash e) i (options s) (constructor_name a)"
  let ?s1 = "s\<lparr>trace := trace s @ [CacheGet ?k, FetchOriginal i a]\<rparr>"
  let ?t2 = "\<lparr>input = Some img,
          pipeline = Rotate # (if blur (options s) then [Blur (blurSigma (options s))] else [])\<rparr>"
  from assms(5) Inr have run: "transform e i a s = (Inr v, s')" by simp
  from transform_success_stages [OF assms(2,3) run] assms(1,4) obtain t3 s3 s4 t4 b ov where
    g: "geometry_stage e (options s3) img ?t2 s3 = (Inr t3, s4)"
    and i4: "input t4 = input t3"
    and ovb: "toBuffer e \<lparr>input = None, pipeline =
                 [Resize (Num 200) (Some (Num 200))
                    (Some \<lparr>fit = Some ''contain'', position = None,
                           withoutEnlargement = None, background = Some (255, 255, 255, 0)\<rparr>),
                  Flatten ''#ff6600'']\<rparr> = Inr ov"
    and p4: "pipeline t4 = pipeline t3 @ [Composite [(ov, 35, 35)]]"
    and tb: "toBuffer e (t4\<lparr>pipeline := pipeline t4 @
          [ToFormat (format (options s3)) (progressive (options s3)) (quality (options s3))]\<rparr>) = Inr b"
    and v: "v = \<lparr>result_format = format (options s3), image = Some b\<rparr>"
    by auto
  have i3: "input t3 = Some img"
    using g by (auto simp: geometry_stage_def bindM_Inr call_eqs split: prod.splits option.splits if_splits)
  let ?t = "t4\<lparr>pipeline := pipeline t4 @
          [ToFormat (format (options s3)) (progressive (options s3)) (quality (options s3))]\<rparr>"
  have "input ?t = Some img" using i4 i3 by simp
  moreover have "Composite [(ov, 35, 35)] \<in> set (pipeline ?t)" using p4 by simp
  moreover have "image v = Some b" using v by simp
  ultimately show ?thesis using Inr ovb tb by blast
qed

text \<open>
  With the stub engine, which refuses to render an instance without input, the call
  with the overlay fails where the same call without the overlay returns an image.
\<close>

theorem overlay_without_bytes_is_not_skipped_witness:
  "overlay (options (stub_state\<lparr>options := stub_options\<lparr>overlay := True, overlayImage := Some ''none.png''\<rparr>\<rparr>))
   \<and> fetchOriginal stub_env ''cat.jpg'' stub_adapter = Inr (Some [1, 2, 3])
   \<and> fetchOverlay stub_env (Some ''none.png'') stub_adapter = Inr None
   \<and> fst (transform stub_env ''cat.jpg'' stub_adapter
        (stub_state\<lparr>options := stub_options\<lparr>overlay := True, overlayImage := Some ''none.png''\<rparr>\<rparr>))
       = Inl (Error ''Input file is missing'')
   \<and> fst (transform stub_env ''cat.jpg'' stub_adapter stub_state)
       = Inr \<lparr>result_format = Some ''jpeg'', image = Some [1, 2, 3, 3]\<rparr>"
proof -
  let ?S = "stub_state\<lparr>options := stub_options\<lparr>overlay := True, overlayImage := Some ''none.png''\<rparr>\<rparr>"
  let ?X = "transform stub_env ''cat.jpg'' stub_adapter ?S"
  have ov: "overlay (options ?S)" by simp
  have miss: "cache ?S (buildCacheKey (hash stub_env) ''cat.jpg'' (options ?S) (constructor_name stub_adapter)) = None"
    by (simp add: stub_state_def)
  have f: "fetchOriginal stub_env ''cat.jpg'' stub_adapter = Inr (Some [1, 2, 3])"
    by (simp add: stub_env_def)
  have fo: "fetchOverlay stub_env (overlayImage (options ?S)) stub_adapter = Inr None"
    by (simp add: stub_env_def)
  have run: "?X = (fst ?X, snd ?X)" by simp
  from overlay_without_bytes_is_not_skipped [OF ov miss f fo run]
  have "(\<exists>err. fst ?X = Inl err) \<or> (\<exists>v. fst ?X = Inr v)" by blast
  with ov f fo stub_run_overlay_missing stub_run_result show ?thesis by simp
qed

subsection \<open>C2: the cache key and the format\<close>

text \<open>
  C2, as the code has it. The first thing a call does is look up the key built from its
  id, its adapter name and its options as they were passed, before the format is
  resolved. For one id and one adapter name, two option records get the same key
  exactly when the hasher gives them the same digest.
\<close>

theorem cache_key_from_options_as_passed:
  "(\<exists>evs. trace (snd (transform e i a s)) =
      trace s @ CacheGet (buildCacheKey (hash e) i (options s) (constructor_name a)) # evs)
   \<and> ((buildCacheKey h i o1 n = buildCacheKey h i o2 n) = (h o1 = h o2))"
  using transform_trace_starts_with_lookup [of e i a s]
  by (simp add: buildCacheKey_def)

text \<open>
  C2 as the spec words it fails: a call without a format and a call with the format
  \<open>jpeg\<close>, the native format of the source, end with equal options, and look up
  different keys.
\<close>

theorem cache_key_counterexample:
  "options (snd (transform stub_env ''cat.jpg'' stub_adapter stub_state)) =
     options (snd (transform stub_env ''cat.jpg'' stub_adapter
        (stub_state\<lparr>options := stub_options\<lparr>format := Some ''jpeg''\<rparr>\<rparr>)))
   \<and> hd (trace (snd (transform stub_env ''cat.jpg'' stub_adapter stub_state))) =
       CacheGet (buildCacheKey canonical_hash ''cat.jpg'' stub_options ''FsAdapter'')
   \<and> hd (trace (snd (transform stub_env ''cat.jpg'' stub_adapter
        (stub_state\<lparr>options := stub_options\<lparr>format := Some ''jpeg''\<rparr>\<rparr>)))) =
       CacheGet (buildCacheKey canonical_hash ''cat.jpg'' (stub_options\<lparr>format := Some ''jpeg''\<rparr>) ''FsAdapter'')
   \<and> buildCacheKey canonical_hash ''cat.jpg'' stub_options ''FsAdapter''
       \<noteq> buildCacheKey canonical_hash ''cat.jpg'' (stub_options\<lparr>format := Some ''jpeg''\<rparr>) ''FsAdapter''"
proof -
  have a: "options (snd (transform stub_env ''cat.jpg'' stub_adapter stub_state)) =
     options (snd (transform stub_env ''cat.jpg'' stub_adapter
        (stub_state\<lparr>options := stub_options\<lparr>format := Some ''jpeg''\<rparr>\<rparr>)))"
    by (simp add: run_defs stub_defs)
  have b: "hd (trace (snd (transform stub_env ''cat.jpg'' stub_adapter stub_state))) =
       CacheGet (buildCacheKey canonical_hash ''cat.jpg'' stub_options ''FsAdapter'')"
    by (simp add: run_defs stub_defs)
  have c: "hd (trace (snd (transform stub_env ''cat.jpg'' stub_adapter
        (stub_state\<lparr>options := stub_options\<lparr>format := Some ''jpeg''\<rparr>\<rparr>)))) =
       CacheGet (buildCacheKey canonical_hash ''cat.jpg'' (stub_options\<lparr>format := Some ''jpeg''\<rparr>) ''FsAdapter'')"
    by (simp add: run_defs stub_defs)
  have d: "buildCacheKey canonical_hash ''cat.jpg'' stub_options ''FsAdapter''
       \<noteq> buildCacheKey canonical_hash ''cat.jpg'' (stub_options\<lparr>format := Some ''jpeg''\<rparr>) ''FsAdapter''"
    using stub_keys_differ by (simp add: buildCacheKey_def)
  from a b c d show ?thesis by blast
qed

subsection \<open>C3: a fetch miss\<close>

text \<open>
  C3. When the key is not in the cache and the primary fetcher has no bytes for the id,
  \<open>transform\<close> returns \<open>{format: options.format, image: null}\<close>. The only calls it has
  made are the cache lookup and the fetch: no engine call, no cache write, and the
  cache and the options are as they were.
\<close>

theorem transform_fetch_miss:
  assumes "cache s (buildCacheKey (hash e) i (options s) (constructor_name a)) = None"
    and "fetchOriginal e i a = Inr None"
  shows "transform e i a s =
    (Inr \<lparr>result_format = format (options s), image = None\<rparr>,
     s\<lparr>trace := trace s @ [CacheGet (buildCacheKey (hash e) i (options s) (constructor_name a)),
                            FetchOriginal i a]\<rparr>)"
  using assms by (rule transform_fetch_none)

theorem transform_fetch_miss_witness:
  "cache stub_state
     (buildCacheKey (hash stub_env) ''dog.jpg'' (options stub_state) (constructor_name stub_adapter)) = None
   \<and> fetchOriginal stub_env ''dog.jpg'' stub_adapter = Inr None
   \<and> transform stub_env ''dog.jpg'' stub_adapter stub_state =
       (Inr \<lparr>result_format = None, image = None\<rparr>,
        stub_state\<lparr>trace :=
          [CacheGet (buildCacheKey (hash stub_env) ''dog.jpg'' (options stub_state)
                       (constructor_name stub_adapter)),
           FetchOriginal ''dog.jpg'' stub_adapter]\<rparr>)"
proof -
  have h1: "cache stub_state
     (buildCacheKey (hash stub_env) ''dog.jpg'' (options stub_state) (constructor_name stub_adapter)) = None"
    by (simp add: stub_state_def)
  have h2: "fetchOriginal stub_env ''dog.jpg'' stub_adapter = Inr None"
    by (simp add: stub_env_def)
  show ?thesis
    using h1 h2 transform_fetch_miss [OF h1 h2]
    by (simp add: stub_state_def stub_options_def)
qed

subsection \<open>C4: a cache hit\<close>




subsection \<open>C5: the crop dimensions\<close>

text \<open>
  C5, as the code has it. The height counts as the width when it is omitted and also
  when it is \<open>0\<close>. With \<open>h\<close> the height after that default: if both \<open>w\<close> and \<open>h\<close> are at
  most \<open>maxSize\<close> the result is \<open>(w, h)\<close>; otherwise, with \<open>aspectRatio = w / h\<close>, it is
  \<open>(maxSize, round (maxSize / aspectRatio))\<close> when \<open>w > h\<close> and
  \<open>(round (maxSize * aspectRatio), round maxSize)\<close> when not (the second component is
  \<open>maxSize\<close> itself when that is a whole number). The quotients and the product are
  those of JavaScript: each is rounded to the nearest double, so at
  \<open>(2000, 1001, 4000)\<close> the width is \<open>500\<close> (the product is just below \<open>500.5\<close>) and at
  \<open>(2000, 2080, 1027)\<close> the height is \<open>987\<close>. The four examples of the spec hold. How
  far a rounded quotient or product is from the exact one is
  \<open>to_double_relative_error\<close>.
\<close>

theorem getCropDimensions_cases:
  "or_else None w = w \<and> or_else (Some 0) w = w
   \<and> (v \<noteq> 0 \<longrightarrow> or_else (Some v) w = v)
   \<and> (w \<le> maxSize \<and> or_else h0 w \<le> maxSize \<longrightarrow>
        getCropDimensions maxSize w h0 = (Num w, Num (or_else h0 w)))
   \<and> (\<not> (w \<le> maxSize \<and> or_else h0 w \<le> maxSize) \<and> w > or_else h0 w \<longrightarrow>
        getCropDimensions maxSize w h0 =
          (Num maxSize,
           js_round (js_div (Num maxSize) (js_div (Num w) (Num (or_else h0 w))))))
   \<and> (\<not> (w \<le> maxSize \<and> or_else h0 w \<le> maxSize) \<and> \<not> w > or_else h0 w \<longrightarrow>
        getCropDimensions maxSize w h0 =
          (js_round (js_mul (Num maxSize) (js_div (Num w) (Num (or_else h0 w)))),
           Num (of_int (round maxSize))))
   \<and> getCropDimensions 2000 500 (Some 500) = (Num 500, Num 500)
   \<and> getCropDimensions 2000 4000 (Some 2000) = (Num 2000, Num 1000)
   \<and> getCropDimensions 2000 1000 (Some 4000) = (Num 500, Num 2000)
   \<and> getCropDimensions 1000 1000 None = getCropDimensions 1000 1000 (Some 1000)
   \<and> getCropDimensions 2000 1001 (Some 4000) = (Num 500, Num 2000)
   \<and> getCropDimensions 2000 2080 (Some 1027) = (Num 2000, Num 987)"
proof -
  have e1: "getCropDimensions 2000 500 (Some 500) = (Num 500, Num 500)"
    by code_simp
  have e2: "getCropDimensions 2000 4000 (Some 2000) = (Num 2000, Num 1000)"
    by code_simp
  have e3: "getCropDimensions 2000 1000 (Some 4000) = (Num 500, Num 2000)"
    by code_simp
  have e4: "getCropDimensions 1000 1000 None = getCropDimensions 1000 1000 (Some 1000)"
    by (simp add: crop_defs)
  have e5: "getCropDimensions 2000 1001 (Some 4000) = (Num 500, Num 2000)"
    by code_simp
  have e6: "getCropDimensions 2000 2080 (Some 1027) = (Num 2000, Num 987)"
    by code_simp
  have g: "or_else None w = w \<and> or_else (Some 0) w = w
   \<and> (v \<noteq> 0 \<longrightarrow> or_else (Some v) w = v)"
    by (simp add: or_else_def)
  have b1: "w \<le> maxSize \<and> or_else h0 w \<le> maxSize \<longrightarrow>
        getCropDimensions maxSize w h0 = (Num w, Num (or_else h0 w))"
    by (simp add: getCropDimensions_def Let_def)
  have b2: "\<not> (w \<le> maxSize \<and> or_else h0 w \<le> maxSize) \<and> w > or_else h0 w \<longrightarrow>
        getCropDimensions maxSize w h0 =
          (Num maxSize,
           js_round (js_div (Num maxSize) (js_div (Num w) (Num (or_else h0 w)))))"
    by (auto simp: getCropDimensions_def Let_def)
  have b3: "\<not> (w \<le> maxSize \<and> or_else h0 w \<le> maxSize) \<and> \<not> w > or_else h0 w \<longrightarrow>
        getCropDimensions maxSize w h0 =
          (js_round (js_mul (Num maxSize) (js_div (Num w) (Num (or_else h0 w)))),
           Num (of_int (round maxSize)))"
    by (auto simp: getCropDimensions_def Let_def)
  from g b1 b2 b3 e1 e2 e3 e4 e5 e6 show ?thesis by blast
qed

theorem getCropDimensions_cases_witness:
  "or_else (Some 7) 9 = 7
   \<and> getCropDimensions 2000 300 None = (Num 300, Num 300)
   \<and> getCropDimensions 2000 3000 (Some 0) = (Num 2000, Num 2000)
   \<and> getCropDimensions 2000 3000 (Some 1000) = (Num 2000, Num 667)
   \<and> getCropDimensions 2000 1000 (Some 3000) = (Num 667, Num 2000)
   \<and> getCropDimensions 2000 1001 (Some 4000) = (Num 500, Num 2000)"
proof -
  have r1: "js_round (js_mul (Num 2000) (js_div (Num 3000) (Num 3000))) = Num 2000"
    by code_simp
  have r2: "js_round (js_div (Num 2000) (js_div (Num 3000) (Num 1000))) = Num 667"
    by code_simp
  have r3: "js_round (js_mul (Num 2000) (js_div (Num 1000) (Num 3000))) = Num 667"
    by code_simp
  show ?thesis
    using getCropDimensions_cases [of 9 7 2000 None]
      getCropDimensions_cases [of 300 7 2000 None]
      getCropDimensions_cases [of 3000 7 2000 "Some 0"]
      getCropDimensions_cases [of 3000 7 2000 "Some 1000"]
      getCropDimensions_cases [of 1000 7 2000 "Some 3000"]
      r1 r2 r3
    by (simp add: or_else_def)
qed

text \<open>
  C5 as the spec words it fails twice. A height of \<open>0\<close> that is passed, not omitted:
  both sides are within the bound, and the result is \<open>(500, 500)\<close>, not \<open>(500, 0)\<close>.
  A bound that is not a whole number: in the last branch the second component is
  \<open>round maxSize\<close>, here \<open>3\<close>, not \<open>maxSize\<close>, here \<open>5 / 2\<close>.
\<close>

theorem getCropDimensions_counterexample:
  "(500::rat) \<le> 2000 \<and> (0::rat) \<le> 2000
   \<and> getCropDimensions 2000 500 (Some 0) = (Num 500, Num 500)
   \<and> getCropDimensions 2000 500 (Some 0) \<noteq> (Num 500, Num 0)
   \<and> \<not> ((2::rat) \<le> 5 / 2 \<and> (4::rat) \<le> 5 / 2) \<and> \<not> (2::rat) > 4
   \<and> getCropDimensions (5 / 2) 2 (Some 4) = (Num 1, Num 3)
   \<and> getCropDimensions (5 / 2) 2 (Some 4)
       \<noteq> (js_round (js_mul (Num (5 / 2)) (js_div (Num 2) (Num 4))), Num (5 / 2))"
proof -
  have a: "getCropDimensions 2000 500 (Some 0) = (Num 500, Num 500)"
    by code_simp
  have b: "getCropDimensions (5 / 2) 2 (Some 4) = (Num 1, Num 3)"
    by code_simp
  show ?thesis unfolding a b by simp
qed

subsection \<open>C6: smartcrop before crop\<close>

text \<open>
  C6. Take a call with \<open>smartcrop\<close> set, whatever \<open>crop\<close> is, and let
  \<open>(cropWidth, cropHeight)\<close> be \<open>getCropDimensions\<close> of the configured maximum and the
  requested width and height. The geometry stage of the call is the smartcrop branch:
  ask the smartcrop engine for the original bytes and that target, \<open>extract\<close> the
  region \<open>c\<close> it answers, \<open>resize(cropWidth, cropWidth)\<close>. And when the call reaches the
  engine (the key is absent and the source is fetched) and returns a result, these
  three calls were made in this order, and \<open>extract\<close> and \<open>resize\<close> are all the geometry
  in the pipeline the returned image was rendered from: the resize of the crop branch
  is not among them.
\<close>

theorem smartcrop_takes_precedence:
  assumes "smartcrop (options s)"
    and "cache s (buildCacheKey (hash e) i (options s) (constructor_name a)) = None"
    and "fetchOriginal e i a = Inr (Some img)"
    and "transform e i a s = (Inr v, s')"
    and "getCropDimensions (cropMaxSize e) (width (options s)) (height (options s)) = (cropWidth, cropHeight)"
  shows "geometry_stage e (options s) img t0 =
        bindM (smartcrop_call e img cropWidth cropHeight) (\<lambda>c.
        bindM (sharp_call e (Extract (crop_width c) (crop_height c) (crop_x c) (crop_y c)) t0) (\<lambda>t1.
        sharp_call e (Resize cropWidth (Some cropWidth) None) t1))
    \<and> (\<exists>c pre post t b.
      smartcrop_crop e img cropWidth cropHeight = Inr c
    \<and> trace s' = trace s @ pre @
        [SmartcropCrop img cropWidth cropHeight,
         EngineCall (Extract (crop_width c) (crop_height c) (crop_x c) (crop_y c)),
         EngineCall (Resize cropWidth (Some cropWidth) None)] @ post
    \<and> toBuffer e t = Inr b \<and> image v = Some b \<and> input t = Some img
    \<and> filter geometric (pipeline t) =
        [Extract (crop_width c) (crop_height c) (crop_x c) (crop_y c),
         Resize cropWidth (Some cropWidth) None])"
proof
  show "geometry_stage e (options s) img t0 =
        bindM (smartcrop_call e img cropWidth cropHeight) (\<lambda>c.
        bindM (sharp_call e (Extract (crop_width c) (crop_height c) (crop_x c) (crop_y c)) t0) (\<lambda>t1.
        sharp_call e (Resize cropWidth (Some cropWidth) None) t1))"
    using assms(1,5) by (simp add: geometry_stage_def)
next
  let ?k = "buildCacheKey (hash e) i (options s) (constructor_name a)"
  let ?s1 = "s\<lparr>trace := trace s @ [CacheGet ?k, FetchOriginal i a]\<rparr>"
  let ?t2 = "\<lparr>input = Some img,
          pipeline = Rotate # (if blur (options s) then [Blur (blurSigma (options s))] else [])\<rparr>"
  from transform_success_stages [OF assms(2,3,4)] obtain pre t3 s3 s4 t4 post b where
    o3: "options s3 = (options s)\<lparr>format := format (options s3)\<rparr>"
    and tr3: "trace s3 = trace s @ pre"
    and g: "geometry_stage e (options s3) img ?t2 s3 = (Inr t3, s4)"
    and i4: "input t4 = input t3"
    and g4: "filter geometric (pipeline t4) = filter geometric (pipeline t3)"
    and tr': "trace s' = trace s4 @ post"
    and tb: "toBuffer e (t4\<lparr>pipeline := pipeline t4 @
          [ToFormat (format (options s3)) (progressive (options s3)) (quality (options s3))]\<rparr>) = Inr b"
    and v: "v = \<lparr>result_format = format (options s3), image = Some b\<rparr>"
    by auto
  have sc: "smartcrop (options s3)" using arg_cong [OF o3, of smartcrop] assms(1) by simp
  have w: "width (options s3) = width (options s)" using arg_cong [OF o3, of width] by simp
  have h: "height (options s3) = height (options s)" using arg_cong [OF o3, of height] by simp
  from geometry_smartcrop_Inr [OF g sc] w h assms(5) obtain c where
    c: "smartcrop_crop e img cropWidth cropHeight = Inr c"
    and t3: "t3 = ?t2\<lparr>pipeline := pipeline ?t2 @
           [Extract (crop_width c) (crop_height c) (crop_x c) (crop_y c),
            Resize cropWidth (Some cropWidth) None]\<rparr>"
    and tr4: "trace s4 = trace s3 @
          [SmartcropCrop img cropWidth cropHeight,
           EngineCall (Extract (crop_width c) (crop_height c) (crop_x c) (crop_y c)),
           EngineCall (Resize cropWidth (Some cropWidth) None)]"
    by auto
  let ?t = "t4\<lparr>pipeline := pipeline t4 @
          [ToFormat (format (options s3)) (progressive (options s3)) (quality (options s3))]\<rparr>"
  have geo: "filter geometric (pipeline ?t) =
        [Extract (crop_width c) (crop_height c) (crop_x c) (crop_y c),
         Resize cropWidth (Some cropWidth) None]"
    using g4 t3 by simp
  have inp: "input ?t = Some img" using i4 t3 by simp
  have tr: "trace s' = trace s @ pre @
        [SmartcropCrop img cropWidth cropHeight,
         EngineCall (Extract (crop_width c) (crop_height c) (crop_x c) (crop_y c)),
         EngineCall (Resize cropWidth (Some cropWidth) None)] @ post"
    using tr' tr4 tr3 by simp
  from c tr tb v geo inp
  show "\<exists>c pre post t b.
      smartcrop_crop e img cropWidth cropHeight = Inr c
    \<and> trace s' = trace s @ pre @
        [SmartcropCrop img cropWidth cropHeight,
         EngineCall (Extract (crop_width c) (crop_height c) (crop_x c) (crop_y c)),
         EngineCall (Resize cropWidth (Some cropWidth) None)] @ post
    \<and> toBuffer e t = Inr b \<and> image v = Some b \<and> input t = Some img
    \<and> filter geometric (pipeline t) =
        [Extract (crop_width c) (crop_height c) (crop_x c) (crop_y c),
         Resize cropWidth (Some cropWidth) None]"
    by (metis Result.select_convs(2))
qed

theorem smartcrop_takes_precedence_witness:
  "smartcrop (options (stub_state\<lparr>options := stub_options\<lparr>smartcrop := True, crop := True\<rparr>\<rparr>))
   \<and> crop (options (stub_state\<lparr>options := stub_options\<lparr>smartcrop := True, crop := True\<rparr>\<rparr>))
   \<and> fetchOriginal stub_env ''cat.jpg'' stub_adapter = Inr (Some [1, 2, 3])
   \<and> fst (transform stub_env ''cat.jpg'' stub_adapter
         (stub_state\<lparr>options := stub_options\<lparr>smartcrop := True, crop := True\<rparr>\<rparr>))
       = Inr \<lparr>result_format = Some ''jpeg'', image = Some [1, 2, 3, 4]\<rparr>
   \<and> getCropDimensions (cropMaxSize stub_env) 500 None = (Num 500, Num 500)
   \<and> (\<exists>t. toBuffer stub_env t = Inr [1, 2, 3, 4] \<and> input t = Some [1, 2, 3]
         \<and> filter geometric (pipeline t) =
             [Extract 300 400 10 20, Resize (Num 500) (Some (Num 500)) None])"
proof -
  let ?S = "stub_state\<lparr>options := stub_options\<lparr>smartcrop := True, crop := True\<rparr>\<rparr>"
  let ?X = "transform stub_env ''cat.jpg'' stub_adapter ?S"
  let ?R = "\<lparr>result_format = Some ''jpeg'', image = Some [1, 2, 3, 4]\<rparr>"
  have sc: "smartcrop (options ?S)" and cr: "crop (options ?S)" by (simp_all add: stub_options_def)
  have miss: "cache ?S (buildCacheKey (hash stub_env) ''cat.jpg'' (options ?S) (constructor_name stub_adapter)) = None"
    by (simp add: stub_state_def)
  have f: "fetchOriginal stub_env ''cat.jpg'' stub_adapter = Inr (Some [1, 2, 3])"
    by (simp add: stub_env_def)
  have run: "?X = (Inr ?R, snd ?X)"
    using stub_run_smartcrop by (rule pair_with_snd)
  have dims: "getCropDimensions (cropMaxSize stub_env) (width (options ?S)) (height (options ?S))
      = (Num 500, Num 500)"
    by (simp add: stub_env_def stub_options_def DEFAULT_CROP_MAX_SIZE_def crop_defs)
  have sm: "\<And>w h. smartcrop_crop stub_env [1, 2, 3] w h =
      Inr \<lparr>crop_x = 10, crop_y = 20, crop_width = 300, crop_height = 400\<rparr>"
    by (simp add: stub_env_def)
  from smartcrop_takes_precedence [OF sc miss f run dims] sm
  have "\<exists>t. toBuffer stub_env t = Inr [1, 2, 3, 4] \<and> input t = Some [1, 2, 3]
         \<and> filter geometric (pipeline t) =
             [Extract 300 400 10 20, Resize (Num 500) (Some (Num 500)) None]"
    by auto
  moreover have "getCropDimensions (cropMaxSize stub_env) 500 None = (Num 500, Num 500)"
    using dims by (simp add: stub_options_def)
  ultimately show ?thesis using sc cr f stub_run_smartcrop by blast
qed

subsection \<open>C7: nothing is cached on failure\<close>

text \<open>
  C7. A call that fails leaves the cache as it was and has made no cache write. A call
  that returns a result either made no cache write, or made exactly one, as its last
  step, right after the engine had rendered the image of the result: the write stores
  that result under the key of the call.
\<close>

theorem cache_written_only_after_encoding:
  assumes "transform e i a s = (r, s')"
  shows "\<exists>evs. trace s' = trace s @ evs \<and>
     (case r of
        Inl err \<Rightarrow> cache s' = cache s \<and> filter is_cache_write evs = []
      | Inr v \<Rightarrow>
          (cache s' = cache s \<and> filter is_cache_write evs = [])
          \<or> (\<exists>pre t b.
                evs = pre @ [EngineToBuffer t,
                             CacheSet (buildCacheKey (hash e) i (options s) (constructor_name a)) v]
                \<and> filter is_cache_write pre = []
                \<and> toBuffer e t = Inr b \<and> image v = Some b
                \<and> cache s' = (cache s)(buildCacheKey (hash e) i (options s) (constructor_name a) \<mapsto> v)))"
proof -
  let ?k = "buildCacheKey (hash e) i (options s) (constructor_name a)"
  let ?s1 = "s\<lparr>trace := trace s @ [CacheGet ?k, FetchOriginal i a]\<rparr>"
  from transform_outcome [OF assms]
  consider
    (hit) r0 where "r = Inr r0" "s' = s\<lparr>trace := trace s @ [CacheGet ?k]\<rparr>"
  | (rejected) err where "r = Inl err" "s' = ?s1"
  | (nobytes) "r = Inr \<lparr>result_format = format (options s), image = None\<rparr>" "s' = ?s1"
  | (fetched) img where "process e ?k a img ?s1 = (r, s')"
    by blast
  then show ?thesis
  proof cases
    case hit
    then show ?thesis by simp
  next
    case rejected
    then show ?thesis by simp
  next
    case nobytes
    then show ?thesis by simp
  next
    case fetched
    show ?thesis
    proof (cases r)
      case (Inl err)
      with fetched process_failure [of e ?k a img ?s1 err s']
      obtain evs where "cache s' = cache s" "trace s' = trace s @ [CacheGet ?k, FetchOriginal i a] @ evs"
        "list_all is_processing evs" by auto
      with Inl show ?thesis by (simp add: processing_no_cache_write)
    next
      case (Inr v)
      with fetched process_success [of e ?k a img ?s1 v s']
      obtain evs t b where c: "cache s' = (cache s)(?k \<mapsto> v)"
        and t: "trace s' = trace s @ ([CacheGet ?k, FetchOriginal i a] @ evs) @ [EngineToBuffer t, CacheSet ?k v]"
        and p: "list_all is_processing evs" and b: "toBuffer e t = Inr b" "image v = Some b" by auto
      have "filter is_cache_write ([CacheGet ?k, FetchOriginal i a] @ evs) = []"
        using p by (simp add: processing_no_cache_write)
      with Inr c t b show ?thesis by (intro exI[of _ "([CacheGet ?k, FetchOriginal i a] @ evs) @ [EngineToBuffer t, CacheSet ?k v]"]) auto
    qed
  qed
qed

text \<open>A failure after a successful fetch: the overlay cannot be rendered.\<close>

theorem cache_written_only_after_encoding_witness:
  "fetchOriginal stub_env ''cat.jpg'' stub_adapter = Inr (Some [1, 2, 3])
   \<and> fst (transform stub_env ''cat.jpg'' stub_adapter
        (stub_state\<lparr>options := stub_options\<lparr>overlay := True, overlayImage := Some ''none.png''\<rparr>\<rparr>))
       = Inl (Error ''Input file is missing'')
   \<and> cache (snd (transform stub_env ''cat.jpg'' stub_adapter
        (stub_state\<lparr>options := stub_options\<lparr>overlay := True, overlayImage := Some ''none.png''\<rparr>\<rparr>)))
       = cache (stub_state\<lparr>options := stub_options\<lparr>overlay := True, overlayImage := Some ''none.png''\<rparr>\<rparr>)"
proof -
  let ?S = "stub_state\<lparr>options := stub_options\<lparr>overlay := True, overlayImage := Some ''none.png''\<rparr>\<rparr>"
  let ?X = "transform stub_env ''cat.jpg'' stub_adapter ?S"
  have f: "fetchOriginal stub_env ''cat.jpg'' stub_adapter = Inr (Some [1, 2, 3])"
    by (simp add: stub_env_def)
  have run: "?X = (Inl (Error ''Input file is missing''), snd ?X)"
    using stub_run_overlay_missing by (rule pair_with_snd)
  from cache_written_only_after_encoding [OF run] have "cache (snd ?X) = cache ?S" by auto
  with f stub_run_overlay_missing show ?thesis by simp
qed

subsection \<open>C8: the options object\<close>

text \<open>
  C8, as the code has it. The only field of the options object that \<open>transform\<close> ever
  writes is \<open>format\<close>. It writes it exactly when the format is missing (\<open>undefined\<close> or
  empty), the key is absent from the cache, the source fetch gives bytes, the engine
  accepts the construction, the rotation and (if requested) the blur, and the read of
  the metadata succeeds; the value written is the format the metadata gives.
\<close>

theorem only_format_is_written:
  "options (snd (transform e i a s)) =
     (if cache s (buildCacheKey (hash e) i (options s) (constructor_name a)) = None
         \<and> format_missing (format (options s))
      then
        (case fetchOriginal e i a of
           Inr (Some img) \<Rightarrow>
             if construct e (Some img) = None \<and> accepts e Rotate = None
                \<and> (blur (options s) \<longrightarrow> accepts e (Blur (blurSigma (options s))) = None)
             then
               (case metadata e \<lparr>input = Some img,
                       pipeline = Rotate # (if blur (options s) then [Blur (blurSigma (options s))] else [])\<rparr> of
                  Inr f \<Rightarrow> (options s)\<lparr>format := f\<rparr>
                | Inl err \<Rightarrow> options s)
             else options s
         | _ \<Rightarrow> options s)
      else options s)"
  by (rule options_after_transform)

theorem only_format_is_written_witness:
  "options (snd (transform stub_env ''cat.jpg'' stub_adapter stub_state)) =
     stub_options\<lparr>format := Some ''jpeg''\<rparr>
   \<and> options (snd (transform stub_env ''cat.jpg'' stub_adapter
        (stub_state\<lparr>options := stub_options\<lparr>format := Some ''png''\<rparr>\<rparr>))) =
     stub_options\<lparr>format := Some ''png''\<rparr>"
  using only_format_is_written [of stub_env "''cat.jpg''" stub_adapter stub_state]
    only_format_is_written [of stub_env "''cat.jpg''" stub_adapter
      "stub_state\<lparr>options := stub_options\<lparr>format := Some ''png''\<rparr>\<rparr>"]
  by (simp add: stub_env_def stub_state_def stub_options_def format_missing_def)

text \<open>
  C8 as the spec words it fails: the format is absent and the fetch succeeds, but the
  bytes are no image the engine can read, so the call fails at \<open>metadata()\<close> and the
  options are as they were.
\<close>

theorem only_format_is_written_counterexample:
  "format (options stub_state) = None
   \<and> fetchOriginal (stub_env\<lparr>metadata := (\<lambda>t. Inl (Error ''unsupported image format''))\<rparr>)
        ''cat.jpg'' stub_adapter = Inr (Some [1, 2, 3])
   \<and> fst (transform (stub_env\<lparr>metadata := (\<lambda>t. Inl (Error ''unsupported image format''))\<rparr>)
        ''cat.jpg'' stub_adapter stub_state) = Inl (Error ''unsupported image format'')
   \<and> options (snd (transform (stub_env\<lparr>metadata := (\<lambda>t. Inl (Error ''unsupported image format''))\<rparr>)
        ''cat.jpg'' stub_adapter stub_state)) = options stub_state"
  by (simp add: run_defs stub_defs)

subsection \<open>C9: the default resize\<close>

text \<open>
  C9. Take a call with neither \<open>smartcrop\<close> nor \<open>crop\<close> set. Its geometry stage is one
  call, \<open>rs\<close>: a \<open>resize\<close> to the requested width and height with
  \<open>{fit: 'inside', withoutEnlargement: true}\<close>. When the call reaches the engine and
  returns a result, \<open>rs\<close> is the only geometry in the pipeline the returned image was
  rendered from. By the size such a resize gives (as
  the spec describes it, see \<open>resize_inside\<close>), a source of size \<open>(sw, sh)\<close> comes out
  within the requested bounds, no larger than it was and with its aspect ratio, and
  unchanged when the bounds are at least its size.
\<close>

theorem default_resize_fits_inside:
  assumes "\<not> smartcrop (options s)" and "\<not> crop (options s)"
    and "cache s (buildCacheKey (hash e) i (options s) (constructor_name a)) = None"
    and "fetchOriginal e i a = Inr (Some img)"
    and "transform e i a s = (Inr v, s')"
    and "rs = Resize (Num (width (options s))) (map_option Num (height (options s)))
               (Some \<lparr>fit = Some ''inside'', position = None,
                      withoutEnlargement = Some True, background = None\<rparr>)"
  shows "geometry_stage e (options s) img t0 = sharp_call e rs t0
       \<and> (\<exists>pre post t b.
            trace s' = trace s @ pre @ [EngineCall rs] @ post
          \<and> toBuffer e t = Inr b \<and> image v = Some b \<and> input t = Some img
          \<and> filter geometric (pipeline t) = [rs])
       \<and> (0 < sw \<and> 0 < sh \<longrightarrow>
            (\<exists>ow oh. output_size rs (sw, sh) = Some (ow, oh)
               \<and> ow \<le> width (options s)
               \<and> (\<forall>hh. height (options s) = Some hh \<longrightarrow> oh \<le> hh)
               \<and> ow \<le> sw \<and> oh \<le> sh
               \<and> ow * sh = oh * sw
               \<and> (sw \<le> width (options s) \<and> (\<forall>hh. height (options s) = Some hh \<longrightarrow> sh \<le> hh)
                    \<longrightarrow> ow = sw \<and> oh = sh)))"
proof (intro conjI)
  show "geometry_stage e (options s) img t0 = sharp_call e rs t0"
    using assms(1,2,6) by (simp add: geometry_stage_def)
next
  let ?k = "buildCacheKey (hash e) i (options s) (constructor_name a)"
  let ?s1 = "s\<lparr>trace := trace s @ [CacheGet ?k, FetchOriginal i a]\<rparr>"
  let ?t2 = "\<lparr>input = Some img,
          pipeline = Rotate # (if blur (options s) then [Blur (blurSigma (options s))] else [])\<rparr>"
  from transform_success_stages [OF assms(3,4,5)] obtain pre t3 s3 s4 t4 post b where
    o3: "options s3 = (options s)\<lparr>format := format (options s3)\<rparr>"
    and tr3: "trace s3 = trace s @ pre"
    and g: "geometry_stage e (options s3) img ?t2 s3 = (Inr t3, s4)"
    and i4: "input t4 = input t3"
    and g4: "filter geometric (pipeline t4) = filter geometric (pipeline t3)"
    and tr': "trace s' = trace s4 @ post"
    and tb: "toBuffer e (t4\<lparr>pipeline := pipeline t4 @
          [ToFormat (format (options s3)) (progressive (options s3)) (quality (options s3))]\<rparr>) = Inr b"
    and v: "v = \<lparr>result_format = format (options s3), image = Some b\<rparr>"
    by auto
  have sc: "\<not> smartcrop (options s3)" using arg_cong [OF o3, of smartcrop] assms(1) by simp
  have cr: "\<not> crop (options s3)" using arg_cong [OF o3, of crop] assms(2) by simp
  have w: "width (options s3) = width (options s)" using arg_cong [OF o3, of width] by simp
  have h: "height (options s3) = height (options s)" using arg_cong [OF o3, of height] by simp
  from geometry_default_Inr [OF g sc cr] w h assms(6) have
    t3: "t3 = ?t2\<lparr>pipeline := pipeline ?t2 @ [rs]\<rparr>"
    and tr4: "trace s4 = trace s3 @ [EngineCall rs]"
    by auto
  let ?t = "t4\<lparr>pipeline := pipeline t4 @
          [ToFormat (format (options s3)) (progressive (options s3)) (quality (options s3))]\<rparr>"
  have geo: "filter geometric (pipeline ?t) = [rs]"
    using g4 t3 assms(6) by simp
  have inp: "input ?t = Some img" using i4 t3 by simp
  have tr: "trace s' = trace s @ pre @ [EngineCall rs] @ post"
    using tr' tr4 tr3 by simp
  from tr tb v geo inp
  show "\<exists>pre post t b.
            trace s' = trace s @ pre @ [EngineCall rs] @ post
          \<and> toBuffer e t = Inr b \<and> image v = Some b \<and> input t = Some img
          \<and> filter geometric (pipeline t) = [rs]"
    by (metis Result.select_convs(2))
next
  show "0 < sw \<and> 0 < sh \<longrightarrow>
            (\<exists>ow oh. output_size rs (sw, sh) = Some (ow, oh)
               \<and> ow \<le> width (options s)
               \<and> (\<forall>hh. height (options s) = Some hh \<longrightarrow> oh \<le> hh)
               \<and> ow \<le> sw \<and> oh \<le> sh
               \<and> ow * sh = oh * sw
               \<and> (sw \<le> width (options s) \<and> (\<forall>hh. height (options s) = Some hh \<longrightarrow> sh \<le> hh)
                    \<longrightarrow> ow = sw \<and> oh = sh))"
  proof
    assume pos: "0 < sw \<and> 0 < sh"
    obtain ow oh where r: "resize_inside (sw, sh) (width (options s)) (height (options s)) = (ow, oh)"
      by (cases "resize_inside (sw, sh) (width (options s)) (height (options s))")
    have os: "output_size rs (sw, sh) = Some (ow, oh)"
      using output_size_inside [of "width (options s)" "height (options s)" "(sw, sh)"] r assms(6)
      by simp
    from pos have a: "0 < sw" and b: "0 < sh" by simp_all
    from os resize_inside_bounds [OF a b r]
    show "\<exists>ow oh. output_size rs (sw, sh) = Some (ow, oh)
               \<and> ow \<le> width (options s)
               \<and> (\<forall>hh. height (options s) = Some hh \<longrightarrow> oh \<le> hh)
               \<and> ow \<le> sw \<and> oh \<le> sh
               \<and> ow * sh = oh * sw
               \<and> (sw \<le> width (options s) \<and> (\<forall>hh. height (options s) = Some hh \<longrightarrow> sh \<le> hh)
                    \<longrightarrow> ow = sw \<and> oh = sh)"
      by blast
  qed
qed

theorem default_resize_fits_inside_witness:
  "\<not> smartcrop (options stub_state) \<and> \<not> crop (options stub_state)
   \<and> fetchOriginal stub_env ''cat.jpg'' stub_adapter = Inr (Some [1, 2, 3])
   \<and> fst (transform stub_env ''cat.jpg'' stub_adapter stub_state)
       = Inr \<lparr>result_format = Some ''jpeg'', image = Some [1, 2, 3, 3]\<rparr>
   \<and> (\<exists>t. toBuffer stub_env t = Inr [1, 2, 3, 3] \<and> input t = Some [1, 2, 3]
         \<and> filter geometric (pipeline t) =
             [Resize (Num 500) None
                (Some \<lparr>fit = Some ''inside'', position = None,
                       withoutEnlargement = Some True, background = None\<rparr>)])
   \<and> output_size (Resize (Num 500) None
                (Some \<lparr>fit = Some ''inside'', position = None,
                       withoutEnlargement = Some True, background = None\<rparr>)) (1000, 800)
       = Some (500, 400)
   \<and> output_size (Resize (Num 500) None
                (Some \<lparr>fit = Some ''inside'', position = None,
                       withoutEnlargement = Some True, background = None\<rparr>)) (300, 200)
       = Some (300, 200)"
proof -
  let ?X = "transform stub_env ''cat.jpg'' stub_adapter stub_state"
  let ?R = "\<lparr>result_format = Some ''jpeg'', image = Some [1, 2, 3, 3]\<rparr>"
  let ?rs = "Resize (Num 500) None
                (Some \<lparr>fit = Some ''inside'', position = None,
                       withoutEnlargement = Some True, background = None\<rparr>)"
  have sc: "\<not> smartcrop (options stub_state)" and cr: "\<not> crop (options stub_state)"
    by (simp_all add: stub_state_def stub_options_def)
  have miss: "cache stub_state
      (buildCacheKey (hash stub_env) ''cat.jpg'' (options stub_state) (constructor_name stub_adapter)) = None"
    by (simp add: stub_state_def)
  have f: "fetchOriginal stub_env ''cat.jpg'' stub_adapter = Inr (Some [1, 2, 3])"
    by (simp add: stub_env_def)
  have run: "?X = (Inr ?R, snd ?X)"
    using stub_run_result by (rule pair_with_snd)
  have rs: "?rs = Resize (Num (width (options stub_state))) (map_option Num (height (options stub_state)))
               (Some \<lparr>fit = Some ''inside'', position = None,
                      withoutEnlargement = Some True, background = None\<rparr>)"
    by (simp add: stub_state_def stub_options_def)
  note th = default_resize_fits_inside [OF sc cr miss f run rs]
  from th [where sw = 1 and sh = 1] have a: "\<exists>t. toBuffer stub_env t = Inr [1, 2, 3, 3] \<and> input t = Some [1, 2, 3]
         \<and> filter geometric (pipeline t) = [?rs]"
    by auto
  have b: "output_size ?rs (1000, 800) = Some (500, 400)"
    using th [where sw = 1000 and sh = 800] by (simp add: resize_inside_def inside_scale_def)
  have c: "output_size ?rs (300, 200) = Some (300, 200)"
    using th [where sw = 300 and sh = 200] by (simp add: resize_inside_def inside_scale_def)
  from sc cr f stub_run_result a b c show ?thesis by blast
qed

subsection \<open>C10: the cache key does not separate the id from the adapter name\<close>

text \<open>
  C10. The pairs \<open>(''a:b'', ''c'')\<close> and \<open>(''a'', ''b:c'')\<close> of id and adapter name differ and
  get the same cache key, whatever the hasher and the options. So a result cached for
  the first is what \<open>transform\<close> returns for the second, without a fetch.
\<close>

theorem buildCacheKey_collision:
  "(''a:b'', ''c'') \<noteq> (''a'', ''b:c'')
   \<and> buildCacheKey h ''a:b'' opts ''c'' = buildCacheKey h ''a'' opts ''b:c''
   \<and> (cache s (buildCacheKey (hash e) ''a:b'' (options s) ''c'') = Some r \<longrightarrow>
        fst (transform e ''a'' \<lparr>constructor_name = ''b:c''\<rparr> s) = Inr r
        \<and> cache (snd (transform e ''a'' \<lparr>constructor_name = ''b:c''\<rparr> s)) = cache s
        \<and> trace (snd (transform e ''a'' \<lparr>constructor_name = ''b:c''\<rparr> s)) =
            trace s @ [CacheGet (buildCacheKey (hash e) ''a:b'' (options s) ''c'')])"
proof -
  have k: "\<And>h opts. buildCacheKey h ''a:b'' opts ''c'' = buildCacheKey h ''a'' opts ''b:c''"
    by (simp add: buildCacheKey_def)
  have "cache s (buildCacheKey (hash e) ''a:b'' (options s) ''c'') = Some r \<Longrightarrow>
        transform e ''a'' \<lparr>constructor_name = ''b:c''\<rparr> s =
          (Inr r, s\<lparr>trace := trace s @ [CacheGet (buildCacheKey (hash e) ''a:b'' (options s) ''c'')]\<rparr>)"
    using transform_hit [of s e "''a''" "\<lparr>constructor_name = ''b:c''\<rparr>" r] by (simp add: k)
  with k show ?thesis by auto
qed

theorem buildCacheKey_collision_witness:
  "cache (stub_state\<lparr>cache := [buildCacheKey (hash stub_env) ''a:b'' stub_options ''c'' \<mapsto>
              \<lparr>result_format = Some ''png'', image = Some [4, 2]\<rparr>]\<rparr>)
      (buildCacheKey (hash stub_env) ''a:b'' stub_options ''c'')
     = Some \<lparr>result_format = Some ''png'', image = Some [4, 2]\<rparr>
   \<and> fst (transform stub_env ''a'' \<lparr>constructor_name = ''b:c''\<rparr>
        (stub_state\<lparr>cache := [buildCacheKey (hash stub_env) ''a:b'' stub_options ''c'' \<mapsto>
              \<lparr>result_format = Some ''png'', image = Some [4, 2]\<rparr>]\<rparr>))
     = Inr \<lparr>result_format = Some ''png'', image = Some [4, 2]\<rparr>"
  using buildCacheKey_collision [of "hash stub_env" stub_options
     "stub_state\<lparr>cache := [buildCacheKey (hash stub_env) ''a:b'' stub_options ''c'' \<mapsto>
              \<lparr>result_format = Some ''png'', image = Some [4, 2]\<rparr>]\<rparr>" stub_env
     "\<lparr>result_format = Some ''png'', image = Some [4, 2]\<rparr>"]
  by (simp add: stub_state_def buildCacheKey_def)

end
